theory Spec2Isabelle
  imports Main "HOL-Library.AList" "HOL-Library.Char_ord" "HOL-Library.List_Lexorder"
begin

section \<open>Strings\<close>

text \<open>
  Python's \<^verbatim>\<open>str\<close> is modelled by \<^typ>\<open>string\<close>, a character being a code
  point below 256.  With the orders of \<^verbatim>\<open>Char_ord\<close> and \<^verbatim>\<open>List_Lexorder\<close> the
  comparison of two strings is the lexicographic comparison of their character codes,
  which is what \<^verbatim>\<open>sorted\<close> uses in the script.  \<^verbatim>\<open>str.strip\<close> removes the
  characters for which \<^verbatim>\<open>str.isspace\<close> holds, twelve of them below 256, and
  \<^verbatim>\<open>str.lower\<close> changes the 26 letters of ASCII and the 30 capital letters from
  \<^verbatim>\<open>U+00C0\<close> to \<^verbatim>\<open>U+00DE\<close>.  Text with code points from 256 on is outside the model.
\<close>

definition startswith :: "string \<Rightarrow> string \<Rightarrow> bool" where
  "startswith s p = (take (length p) s = p)"

definition endswith :: "string \<Rightarrow> string \<Rightarrow> bool" where
  "endswith s p = (length p \<le> length s \<and> drop (length s - length p) s = p)"

definition is_space :: "char \<Rightarrow> bool" where
  "is_space c = (c \<in> set [CHR 0x09, CHR 0x0A, CHR 0x0B, CHR 0x0C, CHR 0x0D,
                            CHR 0x1C, CHR 0x1D, CHR 0x1E, CHR 0x1F, CHR 0x20,
                            CHR 0x85, CHR 0xA0])"

definition strip :: "string \<Rightarrow> string" where
  "strip s = rev (dropWhile is_space (rev (dropWhile is_space s)))"

definition rstrip_slash :: "string \<Rightarrow> string" where
  "rstrip_slash s = rev (dropWhile (\<lambda>c. c = CHR ''/'') (rev s))"

definition upper_letters :: string where
  "upper_letters =
     ''ABCDEFGHIJKLMNOPQRSTUVWXYZ''
       @ [CHR 0xC0, CHR 0xC1, CHR 0xC2, CHR 0xC3, CHR 0xC4, CHR 0xC5, CHR 0xC6, CHR 0xC7,
           CHR 0xC8, CHR 0xC9, CHR 0xCA, CHR 0xCB, CHR 0xCC, CHR 0xCD, CHR 0xCE, CHR 0xCF,
           CHR 0xD0, CHR 0xD1, CHR 0xD2, CHR 0xD3, CHR 0xD4, CHR 0xD5, CHR 0xD6, CHR 0xD8,
           CHR 0xD9, CHR 0xDA, CHR 0xDB, CHR 0xDC, CHR 0xDD, CHR 0xDE]"

definition lower_letters :: string where
  "lower_letters =
     ''abcdefghijklmnopqrstuvwxyz''
       @ [CHR 0xE0, CHR 0xE1, CHR 0xE2, CHR 0xE3, CHR 0xE4, CHR 0xE5, CHR 0xE6, CHR 0xE7,
           CHR 0xE8, CHR 0xE9, CHR 0xEA, CHR 0xEB, CHR 0xEC, CHR 0xED, CHR 0xEE, CHR 0xEF,
           CHR 0xF0, CHR 0xF1, CHR 0xF2, CHR 0xF3, CHR 0xF4, CHR 0xF5, CHR 0xF6, CHR 0xF8,
           CHR 0xF9, CHR 0xFA, CHR 0xFB, CHR 0xFC, CHR 0xFD, CHR 0xFE]"

definition lower_char :: "char \<Rightarrow> char" where
  "lower_char c =
     (case map_of (zip upper_letters lower_letters) c of Some l \<Rightarrow> l | None \<Rightarrow> c)"

definition lower :: "string \<Rightarrow> string" where
  "lower s = map lower_char s"

text \<open>\<^verbatim>\<open>sep.join(xs)\<close>\<close>

fun join :: "string \<Rightarrow> string list \<Rightarrow> string" where
  "join sep [] = []"
| "join sep [x] = x"
| "join sep (x # y # ys) = x @ sep @ join sep (y # ys)"

section \<open>The output tree\<close>

text \<open>
  A directory is the list of its entries, a name with a file or a directory; a name is
  looked up with \<^const>\<open>map_of\<close> and a file is written with \<^const>\<open>AList.update\<close>.
  The names of a directory on disk are distinct; the theorems that depend on this say so.
\<close>

datatype node = File string | Dir "(string \<times> node) list"

type_synonym entries = "(string \<times> node) list"

text \<open>\<^verbatim>\<open>(out_dir / name).exists()\<close> and \<^verbatim>\<open>p.is_file()\<close> for a top-level name.\<close>

definition exists :: "entries \<Rightarrow> string \<Rightarrow> bool" where
  "exists out name = (map_of out name \<noteq> None)"

fun is_file :: "node \<Rightarrow> bool" where
  "is_file (File _) = True"
| "is_file (Dir _) = False"

definition is_dir_at :: "entries \<Rightarrow> string \<Rightarrow> bool" where
  "is_dir_at out name = (case map_of out name of Some (Dir _) \<Rightarrow> True | _ \<Rightarrow> False)"

text \<open>
  \<^verbatim>\<open>out_dir.rglob("*.html")\<close>: every path below the root, file or directory, whose
  last component matches \<^verbatim>\<open>*.html\<close>, as its POSIX path relative to the root.
\<close>

definition fnmatch_html :: "string \<Rightarrow> bool" where
  "fnmatch_html name = endswith name ''.html''"

fun rglob_html_node :: "node \<Rightarrow> string list"
  and rglob_html :: "entries \<Rightarrow> string list" where
  "rglob_html_node (File _) = []"
| "rglob_html_node (Dir es) = rglob_html es"
| "rglob_html [] = []"
| "rglob_html ((n, c) # es) =
     (if fnmatch_html n then [n] else [])
       @ map (\<lambda>rel. n @ ''/'' @ rel) (rglob_html_node c) @ rglob_html es"

section \<open>URL collector\<close>

definition allow_list :: "string list" where
  "allow_list = [''all.html'', ''about.html'', ''rss.xml'', ''sitemap.xml'', ''robots.txt'',
                 ''backlink-feed.xml'']"

definition collect_internal_pages :: "entries \<Rightarrow> string \<Rightarrow> string list" where
  "collect_internal_pages out base_url =
     (let pages0 = (if exists out ''index.html'' then {base_url @ ''/''} else {});
          pages1 = fold (\<lambda>rel pages. if rel = ''index.html'' then pages
                                       else insert (base_url @ ''/'' @ rel) pages)
                        (rglob_html out) pages0;
          pages2 = fold (\<lambda>name pages. if exists out name
                                        then insert (base_url @ ''/'' @ name) pages else pages)
                        allow_list pages1
      in sorted_list_of_set pages2)"

section \<open>XML documents\<close>

text \<open>
  The part of \<^verbatim>\<open>xml.etree.ElementTree\<close> the script uses: elements with a tag,
  attributes, an optional text and children, and \<^verbatim>\<open>ElementTree.write\<close> with
  \<^verbatim>\<open>encoding="utf-8", xml_declaration=True\<close>.
\<close>

datatype element =
  Element (el_tag: string) (el_attrib: "(string \<times> string) list") (el_text: "string option")
    (el_children: "element list")

definition escape_cdata :: "string \<Rightarrow> string" where
  "escape_cdata s =
     concat (map (\<lambda>c. if c = CHR ''&'' then ''&amp;'' else if c = CHR ''<'' then ''&lt;''
                        else if c = CHR ''>'' then ''&gt;'' else [c]) s)"

definition escape_attrib :: "string \<Rightarrow> string" where
  "escape_attrib s =
     concat (map (\<lambda>c. if c = CHR ''&'' then ''&amp;'' else if c = CHR ''<'' then ''&lt;''
                        else if c = CHR ''>'' then ''&gt;'' else if c = CHR 0x22 then ''&quot;''
                        else if c = CHR 0x0D then ''&#13;'' else if c = CHR 0x0A then ''&#10;''
                        else if c = CHR 0x09 then ''&#09;'' else [c]) s)"

fun serialize_xml :: "element \<Rightarrow> string" where
  "serialize_xml (Element tg attrs txt elems) =
     ''<'' @ tg
     @ concat (map (\<lambda>kv. '' '' @ fst kv @ ''='' @ [CHR 0x22] @ escape_attrib (snd kv) @ [CHR 0x22])
                attrs)
     @ (if (txt \<noteq> None \<and> txt \<noteq> Some []) \<or> elems \<noteq> []
        then ''>'' @ (case txt of None \<Rightarrow> [] | Some t \<Rightarrow> escape_cdata t)
               @ concat (map serialize_xml elems) @ ''</'' @ tg @ ''>''
        else '' />'')"

definition xml_write :: "element \<Rightarrow> string" where
  "xml_write root =
     ''<?xml version='' @ [CHR 0x27] @ ''1.0'' @ [CHR 0x27] @ '' encoding='' @ [CHR 0x27]
       @ ''utf-8'' @ [CHR 0x27] @ ''?>'' @ [CHR 0x0A] @ serialize_xml root"

section \<open>Time stamps\<close>

text \<open>
  The value of \<^verbatim>\<open>datetime.now(timezone.utc)\<close>, with \<^verbatim>\<open>date().isoformat()\<close>
  and \<^verbatim>\<open>email.utils.format_datetime\<close> on it.  A datetime has a month from 1 to 12.
\<close>

record datetime =
  dt_year :: nat
  dt_month :: nat
  dt_day :: nat
  dt_hour :: nat
  dt_minute :: nat
  dt_second :: nat

fun str_nat :: "nat \<Rightarrow> string" where
  "str_nat n = (if n < 10 then [''0123456789'' ! n]
                else str_nat (n div 10) @ [''0123456789'' ! (n mod 10)])"

definition zero_pad :: "nat \<Rightarrow> nat \<Rightarrow> string" where
  "zero_pad w n = replicate (w - length (str_nat n)) CHR ''0'' @ str_nat n"

definition date_isoformat :: "datetime \<Rightarrow> string" where
  "date_isoformat d =
     zero_pad 4 (dt_year d) @ ''-'' @ zero_pad 2 (dt_month d) @ ''-'' @ zero_pad 2 (dt_day d)"

definition is_leap :: "nat \<Rightarrow> bool" where
  "is_leap y = (y mod 4 = 0 \<and> (y mod 100 \<noteq> 0 \<or> y mod 400 = 0))"

definition days_before_year :: "nat \<Rightarrow> nat" where
  "days_before_year y = (let y1 = y - 1 in y1 * 365 + y1 div 4 + y1 div 400 - y1 div 100)"

definition days_before_month :: "nat \<Rightarrow> nat \<Rightarrow> nat" where
  "days_before_month y m =
     [0, 0, 31, 59, 90, 120, 151, 181, 212, 243, 273, 304, 334] ! m
       + (if m > 2 \<and> is_leap y then 1 else 0)"

definition weekday :: "datetime \<Rightarrow> nat" where
  "weekday d =
     (days_before_year (dt_year d) + days_before_month (dt_year d) (dt_month d) + dt_day d + 6)
       mod 7"

definition format_datetime :: "datetime \<Rightarrow> string" where
  "format_datetime d =
     [''Mon'', ''Tue'', ''Wed'', ''Thu'', ''Fri'', ''Sat'', ''Sun''] ! weekday d @ '', ''
     @ zero_pad 2 (dt_day d) @ '' ''
     @ [''Jan'', ''Feb'', ''Mar'', ''Apr'', ''May'', ''Jun'', ''Jul'', ''Aug'', ''Sep'', ''Oct'',
        ''Nov'', ''Dec''] ! (dt_month d - 1) @ '' ''
     @ zero_pad 4 (dt_year d) @ '' '' @ zero_pad 2 (dt_hour d) @ '':''
     @ zero_pad 2 (dt_minute d) @ '':'' @ zero_pad 2 (dt_second d) @ '' +0000''"

section \<open>Errors and steps on the output tree\<close>

text \<open>
  An exception is a value.  A step of the pipeline takes the entries of the output
  directory and returns the exception it raised, if any, with the entries as it left
  them: what was written before an exception stays written.
\<close>

datatype error = SystemExit string | FileExistsError | IsADirectoryError | AttributeError

type_synonym step = "entries \<Rightarrow> error option \<times> entries"

definition and_then :: "step \<Rightarrow> step \<Rightarrow> step" where
  "and_then s1 s2 out =
     (case s1 out of (None, out') \<Rightarrow> s2 out' | (Some e, out') \<Rightarrow> (Some e, out'))"

fun for_each :: "('a \<Rightarrow> step) \<Rightarrow> 'a list \<Rightarrow> step" where
  "for_each f [] out = (None, out)"
| "for_each f (x # xs) out =
     (case f x out of (None, out') \<Rightarrow> for_each f xs out' | (Some e, out') \<Rightarrow> (Some e, out'))"

text \<open>
  \<^verbatim>\<open>_write_text\<close>, and \<^verbatim>\<open>ElementTree.write\<close> to a path: the parent is the output
  directory, which exists; opening a directory for writing raises.
\<close>

definition write_text :: "string \<Rightarrow> string \<Rightarrow> step" where
  "write_text name txt out =
     (if is_dir_at out name then (Some IsADirectoryError, out)
      else (None, AList.update name (File txt) out))"

text \<open>\<^verbatim>\<open>_copy_if_missing(src, out_dir / src.name)\<close>\<close>

definition copy_if_missing :: "string \<times> node \<Rightarrow> step" where
  "copy_if_missing src out =
     (if exists out (fst src) then (None, out)
      else (case snd src of
              Dir _ \<Rightarrow> (Some IsADirectoryError, out)
            | File c \<Rightarrow> (None, AList.update (fst src) (File c) out)))"

section \<open>Robots and sitemap renderers\<close>

definition robots_text :: "string \<Rightarrow> string" where
  "robots_text base_url =
     join [CHR 0x0A]
       [''User-agent: *'', ''Allow: /'', ''Sitemap: '' @ base_url @ ''/sitemap.xml'', []]"

definition ensure_robots :: "string \<Rightarrow> step" where
  "ensure_robots base_url = write_text ''robots.txt'' (robots_text base_url)"

definition sitemap_url :: "string \<Rightarrow> string \<Rightarrow> element" where
  "sitemap_url lastmod loc =
     Element ''url'' [] None
       [Element ''loc'' [] (Some loc) [], Element ''lastmod'' [] (Some lastmod) []]"

definition sitemap_urlset :: "string list \<Rightarrow> string \<Rightarrow> element" where
  "sitemap_urlset urls lastmod =
     Element ''urlset'' [(''xmlns'', ''http://www.sitemaps.org/schemas/sitemap/0.9'')] None
       (fold (\<lambda>loc us. us @ [sitemap_url lastmod loc]) urls [])"

definition ensure_sitemap :: "string \<Rightarrow> datetime \<Rightarrow> step" where
  "ensure_sitemap base_url now_utc out =
     (let urls = collect_internal_pages out base_url;
          urlset = sitemap_urlset urls (date_isoformat now_utc)
      in write_text ''sitemap.xml'' (xml_write urlset) out)"

section \<open>Recent-items reader\<close>

text \<open>
  The log \<^verbatim>\<open>data/daily.csv\<close> is given by the rows \<^verbatim>\<open>csv.reader\<close> yields for it,
  \<^const>\<open>None\<close> when the file is missing.  \<^verbatim>\<open>xs[i:]\<close> is Python's slice.
\<close>

definition slice_from :: "int \<Rightarrow> 'a list \<Rightarrow> 'a list" where
  "slice_from i xs =
     (let n = int (length xs); j = (if i < 0 then max 0 (n + i) else min i n)
      in drop (nat j) xs)"

definition read_recent_urls :: "string list list option \<Rightarrow> int \<Rightarrow> string list" where
  "read_recent_urls daily_csv limit =
     (case daily_csv of
        None \<Rightarrow> []
      | Some rows \<Rightarrow>
          (let urls = fold (\<lambda>row urls.
                              if row = [] then urls
                              else (let u = strip (hd row)
                                    in if startswith u ''http://'' \<or> startswith u ''https://''
                                       then urls @ [u] else urls))
                           (tl rows) []
           in if int (length urls) > limit then slice_from (- limit) urls else urls))"

section \<open>Enrichment index\<close>

text \<open>
  A value \<^verbatim>\<open>json.loads\<close> returns; a number is an integer here, the script only tests
  whether it is zero.  \<^verbatim>\<open>data/enriched.json\<close> is missing, or reading and parsing it
  raises, or it parses to a value.
\<close>

datatype json =
  JNull | JBool bool | JNum int | JStr string | JList "json list" | JDict "(string \<times> json) list"

datatype enriched_file = Missing | Unparsable | Parsed json

fun load_enriched :: "enriched_file \<Rightarrow> json" where
  "load_enriched Missing = JDict []"
| "load_enriched Unparsable = JDict []"
| "load_enriched (Parsed j) = j"

fun truthy :: "json \<Rightarrow> bool" where
  "truthy JNull = False"
| "truthy (JBool b) = b"
| "truthy (JNum n) = (n \<noteq> 0)"
| "truthy (JStr s) = (s \<noteq> [])"
| "truthy (JList xs) = (xs \<noteq> [])"
| "truthy (JDict d) = (d \<noteq> [])"

text \<open>\<^verbatim>\<open>a or b\<close>, \<^verbatim>\<open>d.get(k)\<close>, \<^verbatim>\<open>d.get(k, {})\<close> and \<^verbatim>\<open>v.strip()\<close> on such values.\<close>

definition py_or :: "json \<Rightarrow> json \<Rightarrow> json" where
  "py_or a b = (if truthy a then a else b)"

definition dict_get :: "(string \<times> json) list \<Rightarrow> string \<Rightarrow> json" where
  "dict_get d k = (case map_of d k of None \<Rightarrow> JNull | Some v \<Rightarrow> v)"

definition dict_get_or_empty :: "json \<Rightarrow> string \<Rightarrow> json" where
  "dict_get_or_empty j k =
     (case j of
        JDict d \<Rightarrow> (case map_of d k of None \<Rightarrow> JDict [] | Some v \<Rightarrow> v)
      | _ \<Rightarrow> JDict [])"

fun json_strip :: "json \<Rightarrow> error + string" where
  "json_strip (JStr s) = Inr (strip s)"
| "json_strip _ = Inl AttributeError"

section \<open>Feed renderer\<close>

definition rss_item :: "json \<Rightarrow> string \<Rightarrow> string \<Rightarrow> error + element" where
  "rss_item enriched pub_date u =
     (case dict_get_or_empty enriched u of
        JDict meta \<Rightarrow>
          (case json_strip (py_or (dict_get meta ''title'') (JStr [])) of
             Inl e \<Rightarrow> Inl e
           | Inr t \<Rightarrow>
               (case json_strip (py_or (py_or (dict_get meta ''summary'')
                                              (dict_get meta ''description'')) (JStr [])) of
                  Inl e \<Rightarrow> Inl e
                | Inr d \<Rightarrow>
                    Inr (Element ''item'' [] None
                          [Element ''title'' [] (Some (if t = [] then u else t)) [],
                           Element ''link'' [] (Some u) [],
                           Element ''guid'' [] (Some u) [],
                           Element ''description'' [] (Some (if d = [] then u else d)) [],
                           Element ''pubDate'' [] (Some pub_date) []])))
      | _ \<Rightarrow> Inl AttributeError)"

fun rss_items :: "json \<Rightarrow> string \<Rightarrow> string list \<Rightarrow> error + element list" where
  "rss_items enriched pub_date [] = Inr []"
| "rss_items enriched pub_date (u # us) =
     (case rss_item enriched pub_date u of
        Inl e \<Rightarrow> Inl e
      | Inr item \<Rightarrow>
          (case rss_items enriched pub_date us of
             Inl e \<Rightarrow> Inl e
           | Inr items \<Rightarrow> Inr (item # items)))"

definition rss_channel :: "string \<Rightarrow> string \<Rightarrow> element list \<Rightarrow> element" where
  "rss_channel base_url build_date items =
     Element ''rss'' [(''version'', ''2.0'')] None
       [Element ''channel'' [] None
          ([Element ''title'' [] (Some ''Discovery Hub'') [],
            Element ''link'' [] (Some (base_url @ ''/'')) [],
            Element ''description'' [] (Some ''Recently added links'') [],
            Element ''lastBuildDate'' [] (Some build_date) []] @ items)]"

definition render_rss ::
  "string list list option \<Rightarrow> enriched_file \<Rightarrow> string \<Rightarrow> datetime \<Rightarrow> error + element" where
  "render_rss daily_csv enriched_json base_url now_utc =
     (let urls = read_recent_urls daily_csv 50;
          enriched = dict_get_or_empty (load_enriched enriched_json) ''items''
      in case rss_items enriched (format_datetime now_utc) (rev urls) of
           Inl e \<Rightarrow> Inl e
         | Inr items \<Rightarrow> Inr (rss_channel base_url (format_datetime now_utc) items))"

definition ensure_rss ::
  "string list list option \<Rightarrow> enriched_file \<Rightarrow> string \<Rightarrow> datetime \<Rightarrow> step" where
  "ensure_rss daily_csv enriched_json base_url now_utc out =
     (case render_rss daily_csv enriched_json base_url now_utc of
        Inl e \<Rightarrow> (Some e, out)
      | Inr rss \<Rightarrow> write_text ''rss.xml'' (xml_write rss) out)"

section \<open>Override-rule emitter\<close>

text \<open>
  \<^verbatim>\<open>INDEXNOW_KEY_RE.match(fn)\<close> for \<^verbatim>\<open>^[a-f0-9]{32}\.txt$\<close> with \<^verbatim>\<open>re.I\<close>: the
  letters of the digits and of the suffix match in both cases, and \<^verbatim>\<open>$\<close> also
  matches before a final newline.
\<close>

definition is_hex :: "char \<Rightarrow> bool" where
  "is_hex c = (c \<in> set ''0123456789abcdefABCDEF'')"

definition indexnow_key_re_match :: "string \<Rightarrow> bool" where
  "indexnow_key_re_match fn =
     (32 \<le> length fn \<and> list_all is_hex (take 32 fn)
      \<and> (lower (drop 32 fn) = ''.txt'' \<or> lower (drop 32 fn) = ''.txt'' @ [CHR 0x0A]))"

definition is_google_html :: "string \<Rightarrow> bool" where
  "is_google_html fn = (startswith (lower fn) ''google'' \<and> endswith (lower fn) ''.html'')"

definition must_files :: "string list" where
  "must_files = [''robots.txt'', ''sitemap.xml'', ''rss.xml'', ''backlink-feed.xml'',
                 ''index.html'', ''all.html'', ''about.html'']"

definition redirect_rule :: "string \<Rightarrow> string" where
  "redirect_rule fn = ''/'' @ fn @ '' /'' @ fn @ '' 200''"

definition daily_rule :: string where
  "daily_rule = ''/d/* /d/:splat 200''"

text \<open>\<^verbatim>\<open>sorted([p.name for p in out_dir.iterdir() if p.is_file()])\<close>\<close>

definition top_level_files :: "entries \<Rightarrow> string list" where
  "top_level_files out = sort (map fst (filter (\<lambda>e. is_file (snd e)) out))"

definition redirects_lines :: "entries \<Rightarrow> string list" where
  "redirects_lines out =
     (let lines1 = fold (\<lambda>fn ls. if exists out fn then ls @ [redirect_rule fn] else ls)
                        must_files [];
          lines2 = (if exists out ''d'' then lines1 @ [daily_rule] else lines1)
      in fold (\<lambda>fn ls.
                 (let ls' = (if is_google_html fn then ls @ [redirect_rule fn] else ls)
                  in if indexnow_key_re_match fn then ls' @ [redirect_rule fn] else ls'))
              (top_level_files out) lines2)"

definition add_header :: "string \<Rightarrow> string \<Rightarrow> string list \<Rightarrow> string list" where
  "add_header path content_type headers =
     headers @ [path, ''  Content-Type: '' @ content_type, []]"

definition headers_lines :: "string list" where
  "headers_lines =
     add_header ''/robots.txt'' ''text/plain; charset=utf-8''
       (add_header ''/backlink-feed.xml'' ''application/xml; charset=utf-8''
         (add_header ''/rss.xml'' ''application/rss+xml; charset=utf-8''
           (add_header ''/sitemap.xml'' ''application/xml; charset=utf-8'' [])))"

definition rstrip :: "string \<Rightarrow> string" where
  "rstrip s = rev (dropWhile is_space (rev s))"

definition redirects_text :: "entries \<Rightarrow> string" where
  "redirects_text out = join [CHR 0x0A] (redirects_lines out) @ [CHR 0x0A]"

definition headers_text :: string where
  "headers_text = rstrip (join [CHR 0x0A] headers_lines) @ [CHR 0x0A]"

definition ensure_netlify_overrides :: step where
  "ensure_netlify_overrides out =
     and_then (write_text ''_redirects'' (redirects_text out))
              (write_text ''_headers'' headers_text) out"

section \<open>Token copier\<close>

text \<open>
  \<^verbatim>\<open>docs_dir.glob("google*.html")\<close> and \<^verbatim>\<open>docs_dir.glob("*.txt")\<close> match the names
  of the entries of \<^verbatim>\<open>docs/\<close>, files and directories, case-sensitively.  A name that
  starts with \<^verbatim>\<open>google\<close> and ends with \<^verbatim>\<open>.html\<close> has room for both.  When
  \<^verbatim>\<open>docs\<close> exists it is a directory; copying a directory raises.
\<close>

definition glob_google_html :: "string \<Rightarrow> bool" where
  "glob_google_html name = (startswith name ''google'' \<and> endswith name ''.html'')"

definition glob_txt :: "string \<Rightarrow> bool" where
  "glob_txt name = endswith name ''.txt''"

text \<open>The body of the second loop: only a name the key pattern matches is copied.\<close>

definition copy_if_key :: "string \<times> node \<Rightarrow> step" where
  "copy_if_key p out =
     (if indexnow_key_re_match (fst p) then copy_if_missing p out else (None, out))"

definition copy_root_tokens :: "entries option \<Rightarrow> step" where
  "copy_root_tokens docs_dir out =
     (case docs_dir of
        None \<Rightarrow> (None, out)
      | Some docs \<Rightarrow>
          and_then
            (for_each copy_if_missing (filter (\<lambda>p. glob_google_html (fst p)) docs))
            (for_each copy_if_key (filter (\<lambda>p. glob_txt (fst p)) docs))
            out)"

section \<open>The driver\<close>

text \<open>
  What a run reads and writes: the node at the path given as \<^verbatim>\<open>OUT_DIR\<close>, if there is
  one, and below the repository root the log, the enrichment index and the entries of
  \<^verbatim>\<open>docs/\<close>.  The run writes below \<^verbatim>\<open>OUT_DIR\<close> only, and there never to a name the
  token copier reads.  \<^verbatim>\<open>Path(p).resolve()\<close> depends on the working directory and
  on the links of the file system: the world gives the resolved path of every path.
\<close>

record world =
  out_dir :: "node option"
  daily_csv :: "string list list option"
  enriched_json :: enriched_file
  docs_dir :: "entries option"
  resolve :: "string \<Rightarrow> string"

definition norm_base_url :: "string \<Rightarrow> string" where
  "norm_base_url u = (let u = strip u in if u = [] then u else rstrip_slash u)"

definition pipeline :: "world \<Rightarrow> string \<Rightarrow> datetime \<Rightarrow> step" where
  "pipeline w base_url now_utc =
     and_then (copy_root_tokens (docs_dir w))
       (and_then (ensure_robots base_url)
         (and_then (ensure_rss (daily_csv w) (enriched_json w) base_url now_utc)
           (and_then (ensure_sitemap base_url now_utc)
             ensure_netlify_overrides)))"

definition usage :: string where
  "usage = ''Usage: python scripts/netlify_fix.py <OUT_DIR> <BASE_URL>''"

text \<open>
  \<^verbatim>\<open>main\<close> on \<^verbatim>\<open>sys.argv\<close>, the clock and the world, with the exception that ended
  the run, if any, and the world as the run left it.  When \<^verbatim>\<open>OUT_DIR\<close> is a file
  the first \<^verbatim>\<open>mkdir\<close> of it raises.
\<close>

definition main :: "string list \<Rightarrow> datetime \<Rightarrow> world \<Rightarrow> error option \<times> world" where
  "main argv now_utc w =
     (if length argv < 3 then (Some (SystemExit usage), w)
      else (let base_url = norm_base_url (argv ! 2)
            in case out_dir w of
                 None \<Rightarrow>
                   (Some (SystemExit (''OUT_DIR not found: '' @ resolve w (argv ! 1))), w)
               | Some nd \<Rightarrow>
                   if \<not> startswith base_url ''http''
                   then (Some (SystemExit ''BASE_URL must start with http(s)''), w)
                   else (case nd of
                           File _ \<Rightarrow> (Some FileExistsError, w)
                         | Dir out \<Rightarrow>
                             (case pipeline w base_url now_utc out of
                                (e, out') \<Rightarrow> (e, w\<lparr>out_dir := Some (Dir out')\<rparr>)))))"

text \<open>The node at a top-level name of the output directory of a world.\<close>

definition document :: "world \<Rightarrow> string \<Rightarrow> node option" where
  "document w name = (case out_dir w of Some (Dir out) \<Rightarrow> map_of out name | _ \<Rightarrow> None)"

text \<open>The exit status of the process: an exception that reaches the top gives 1.\<close>

fun exit_status :: "error option \<Rightarrow> nat" where
  "exit_status None = 0"
| "exit_status (Some e) = 1"

section \<open>Reading documents and trees\<close>

text \<open>
  The text of the first child with a given tag, as \<^verbatim>\<open>Element.findtext\<close> reads it, and
  the node a relative path leads to, component by component.
\<close>

definition child_text :: "string \<Rightarrow> element \<Rightarrow> string option" where
  "child_text t e =
     (case filter (\<lambda>c. el_tag c = t) (el_children e) of [] \<Rightarrow> None | c # _ \<Rightarrow> el_text c)"

fun lookup_path :: "entries \<Rightarrow> string list \<Rightarrow> node option" where
  "lookup_path out [] = None"
| "lookup_path out [n] = map_of out n"
| "lookup_path out (n # m # ps) =
     (case map_of out n of Some (Dir es) \<Rightarrow> lookup_path es (m # ps) | _ \<Rightarrow> None)"

text \<open>The \<^verbatim>\<open>item\<close> elements of a feed, in document order.\<close>

definition feed_items :: "element \<Rightarrow> element list" where
  "feed_items rss =
     (case el_children rss of
        [] \<Rightarrow> []
      | channel # _ \<Rightarrow> filter (\<lambda>c. el_tag c = ''item'') (el_children channel))"

text \<open>
  What the specification calls the enrichment record of a URL: the object stored for the
  URL under \<^verbatim>\<open>items\<close>, with no fields when there is none.  Its title is the
  \<^verbatim>\<open>title\<close> field when that is a string with something other than white space in it,
  without the surrounding white space.  A field is available when it is there with a
  value Python takes for true.
\<close>

definition enrichment_record :: "enriched_file \<Rightarrow> string \<Rightarrow> (string \<times> json) list" where
  "enrichment_record ej u =
     (case ej of
        Parsed (JDict d) \<Rightarrow>
          (case map_of d ''items'' of
             Some (JDict items) \<Rightarrow> (case map_of items u of Some (JDict meta) \<Rightarrow> meta | _ \<Rightarrow> [])
           | _ \<Rightarrow> [])
      | _ \<Rightarrow> [])"

definition enrichment_title :: "enriched_file \<Rightarrow> string \<Rightarrow> string option" where
  "enrichment_title ej u =
     (case map_of (enrichment_record ej u) ''title'' of
        Some (JStr s) \<Rightarrow> (if strip s = [] then None else Some (strip s))
      | _ \<Rightarrow> None)"

definition available :: "enriched_file \<Rightarrow> string \<Rightarrow> string \<Rightarrow> bool" where
  "available ej u k =
     (case map_of (enrichment_record ej u) k of Some v \<Rightarrow> truthy v | None \<Rightarrow> False)"

section \<open>Properties of the URL collector\<close>

lemma fold_insert_unless:
  "fold (\<lambda>x S. if P x then S else insert (f x) S) xs S0 = S0 \<union> f ` {x \<in> set xs. \<not> P x}"
  by (induction xs arbitrary: S0) auto

lemma fold_insert_when:
  "fold (\<lambda>x S. if P x then insert (f x) S else S) xs S0 = S0 \<union> f ` {x \<in> set xs. P x}"
  by (induction xs arbitrary: S0) auto

lemma collect_sorted_list:
  "collect_internal_pages out base_url =
     sorted_list_of_set
       ((if exists out ''index.html'' then {base_url @ ''/''} else {})
        \<union> (\<lambda>rel. base_url @ ''/'' @ rel) ` {rel \<in> set (rglob_html out). rel \<noteq> ''index.html''}
        \<union> (\<lambda>name. base_url @ ''/'' @ name) ` {name \<in> set allow_list. exists out name})"
  unfolding collect_internal_pages_def Let_def
  by (simp only: fold_insert_unless fold_insert_when)

lemma set_collect:
  "set (collect_internal_pages out base_url) =
     (if exists out ''index.html'' then {base_url @ ''/''} else {})
     \<union> (\<lambda>rel. base_url @ ''/'' @ rel) ` {rel \<in> set (rglob_html out). rel \<noteq> ''index.html''}
     \<union> (\<lambda>name. base_url @ ''/'' @ name) ` {name \<in> set allow_list. exists out name}"
  by (simp add: collect_sorted_list)

lemma sorted_collect: "sorted (collect_internal_pages out base_url)"
  by (simp add: collect_sorted_list)

lemma distinct_collect: "distinct (collect_internal_pages out base_url)"
  by (simp add: collect_sorted_list)

lemma index_not_allowed: "''index.html'' \<notin> set allow_list"
  by (simp add: allow_list_def)

lemma root_listed:
  "exists out ''index.html'' \<Longrightarrow> base_url @ ''/'' \<in> set (collect_internal_pages out base_url)"
  by (simp add: set_collect)

lemma index_path_not_listed:
  "base_url @ ''/index.html'' \<notin> set (collect_internal_pages out base_url)"
  using index_not_allowed by (auto simp add: set_collect)

subsection \<open>The sitemap document\<close>

lemma fold_snoc_map: "fold (\<lambda>x ys. ys @ [f x]) xs acc = acc @ map f xs"
  by (induction xs arbitrary: acc) auto

lemma urlset_children:
  "el_children (sitemap_urlset urls lastmod) = map (sitemap_url lastmod) urls"
  by (simp add: sitemap_urlset_def fold_snoc_map)

lemma url_loc: "child_text ''loc'' (sitemap_url lastmod loc) = Some loc"
  by (simp add: child_text_def sitemap_url_def)

lemma url_lastmod: "child_text ''lastmod'' (sitemap_url lastmod loc) = Some lastmod"
  by (simp add: child_text_def sitemap_url_def)

lemma urlset_locs:
  "map (child_text ''loc'') (el_children (sitemap_urlset urls lastmod)) = map Some urls"
  by (simp add: urlset_children url_loc comp_def)

lemma urlset_lastmods:
  "map (child_text ''lastmod'') (el_children (sitemap_urlset urls lastmod))
     = replicate (length urls) (Some lastmod)"
  by (simp add: urlset_children url_lastmod comp_def map_replicate_const)

lemma urlset_tags:
  "map el_tag (el_children (sitemap_urlset urls lastmod)) = replicate (length urls) ''url''"
  by (simp add: urlset_children sitemap_url_def comp_def map_replicate_const)

text \<open>
  Claim C1.  Unless \<^verbatim>\<open>sitemap.xml\<close> is a directory, the sitemap renderer writes to
  \<^verbatim>\<open>sitemap.xml\<close> the document whose children are \<^verbatim>\<open>url\<close> elements, one for each
  URL the collector returns for the tree and in that order; the list the collector
  returns is sorted and has no duplicates; and the \<^verbatim>\<open>lastmod\<close> of every entry is the
  ISO date of the run's UTC time.
\<close>

theorem sitemap_one_entry_per_collected_url:
  "\<not> is_dir_at out ''sitemap.xml'' \<Longrightarrow>
     ensure_sitemap base_url now_utc out
       = (None, AList.update ''sitemap.xml''
                  (File (xml_write (sitemap_urlset (collect_internal_pages out base_url)
                                                   (date_isoformat now_utc)))) out)
     \<and> map el_tag (el_children (sitemap_urlset (collect_internal_pages out base_url)
                                                (date_isoformat now_utc)))
         = replicate (length (collect_internal_pages out base_url)) ''url''
     \<and> map (child_text ''loc'')
           (el_children (sitemap_urlset (collect_internal_pages out base_url)
                                        (date_isoformat now_utc)))
         = map Some (collect_internal_pages out base_url)
     \<and> map (child_text ''lastmod'')
           (el_children (sitemap_urlset (collect_internal_pages out base_url)
                                        (date_isoformat now_utc)))
         = replicate (length (collect_internal_pages out base_url))
                     (Some (date_isoformat now_utc))
     \<and> sorted (collect_internal_pages out base_url)
     \<and> distinct (collect_internal_pages out base_url)"
  by (simp add: ensure_sitemap_def write_text_def urlset_tags urlset_locs urlset_lastmods
        sorted_collect distinct_collect)

theorem sitemap_one_entry_per_collected_url_witness:
  "\<not> is_dir_at [(''index.html'', File ''home''), (''d'', Dir [(''a.html'', File ''a'')])]
        ''sitemap.xml''
   \<and> map (child_text ''loc'')
         (el_children
           (sitemap_urlset
             (collect_internal_pages
               [(''index.html'', File ''home''), (''d'', Dir [(''a.html'', File ''a'')])]
               ''https://x'')
             (date_isoformat \<lparr>dt_year = 2026, dt_month = 11, dt_day = 4, dt_hour = 14,
                               dt_minute = 23, dt_second = 5\<rparr>)))
       = map Some
           (collect_internal_pages
             [(''index.html'', File ''home''), (''d'', Dir [(''a.html'', File ''a'')])]
             ''https://x'')"
proof -
  have h: "\<not> is_dir_at [(''index.html'', File ''home''), (''d'', Dir [(''a.html'', File ''a'')])]
                ''sitemap.xml''"
    by (simp add: is_dir_at_def)
  show ?thesis
    using h sitemap_one_entry_per_collected_url [OF h] by simp
qed

text \<open>
  Claim C6.  When \<^verbatim>\<open>index.html\<close> exists at the output root, the collector's result
  contains the base URL followed by a slash, and so does the sitemap built from it; the
  URL \<^verbatim>\<open>base_url/index.html\<close> is in neither.
\<close>

theorem root_index_listed_as_base_url:
  "exists out ''index.html'' \<Longrightarrow>
     base_url @ ''/'' \<in> set (collect_internal_pages out base_url)
     \<and> base_url @ ''/index.html'' \<notin> set (collect_internal_pages out base_url)
     \<and> Some (base_url @ ''/'')
          \<in> set (map (child_text ''loc'')
                    (el_children (sitemap_urlset (collect_internal_pages out base_url) lastmod)))
     \<and> Some (base_url @ ''/index.html'')
          \<notin> set (map (child_text ''loc'')
                    (el_children (sitemap_urlset (collect_internal_pages out base_url) lastmod)))"
  using index_path_not_listed [of base_url out]
  by (simp add: urlset_locs root_listed image_iff)

theorem root_index_listed_as_base_url_witness:
  "exists [(''index.html'', File ''home'')] ''index.html''
   \<and> ''https://x'' @ ''/'' \<in> set (collect_internal_pages [(''index.html'', File ''home'')] ''https://x'')
   \<and> ''https://x'' @ ''/index.html''
        \<notin> set (collect_internal_pages [(''index.html'', File ''home'')] ''https://x'')"
proof -
  have h: "exists [(''index.html'', File ''home'')] ''index.html''"
    by (simp add: exists_def)
  show ?thesis
    using h root_index_listed_as_base_url [OF h, of "''https://x''"] by blast
qed

subsection \<open>Every HTML file is collected\<close>

lemma rglob_entry_name:
  "(n, c) \<in> set es \<Longrightarrow> fnmatch_html n \<Longrightarrow> n \<in> set (rglob_html es)"
  by (induction es) auto

lemma rglob_entry_below:
  "(n, c) \<in> set es \<Longrightarrow> rel \<in> set (rglob_html_node c) \<Longrightarrow>
     n @ ''/'' @ rel \<in> set (rglob_html es)"
  by (induction es) auto

lemma lookup_path_rglob:
  "lookup_path out ps = Some nd \<Longrightarrow> fnmatch_html (last ps) \<Longrightarrow>
     join ''/'' ps \<in> set (rglob_html out)"
proof (induction out ps rule: lookup_path.induct)
  case (1 out)
  then show ?case by simp
next
  case (2 out n)
  then have "(n, nd) \<in> set out" by (simp add: map_of_SomeD)
  with 2 show ?case using rglob_entry_name by fastforce
next
  case (3 out n m ps)
  then obtain es where es: "map_of out n = Some (Dir es)"
    and sub: "lookup_path es (m # ps) = Some nd"
    by (auto split: option.splits node.splits)
  from 3 es sub have "join ''/'' (m # ps) \<in> set (rglob_html es)" by simp
  moreover from es have "(n, Dir es) \<in> set out" by (simp add: map_of_SomeD)
  ultimately have "n @ ''/'' @ join ''/'' (m # ps) \<in> set (rglob_html out)"
    using rglob_entry_below[of n "Dir es" out] by simp
  then show ?case by simp
qed

lemma join_index:
  "join ''/'' ps = ''index.html'' \<Longrightarrow> ps \<noteq> [] \<Longrightarrow> ps = [''index.html'']"
proof (cases ps)
  case Nil
  assume "ps \<noteq> []" with Nil show ?thesis by simp
next
  case (Cons n qs)
  assume j: "join ''/'' ps = ''index.html''"
  show ?thesis
  proof (cases qs)
    case Nil
    with Cons j show ?thesis by simp
  next
    case (Cons m rs)
    with \<open>ps = n # qs\<close> j have "n @ ''/'' @ join ''/'' (m # rs) = ''index.html''" by simp
    then have "CHR ''/'' \<in> set ''index.html''"
      by (metis in_set_conv_decomp append_Cons)
    then show ?thesis by simp
  qed
qed

lemma html_path_listed:
  assumes "lookup_path out ps = Some nd" and "fnmatch_html (last ps)"
  shows "(if ps = [''index.html''] then base_url @ ''/'' else base_url @ ''/'' @ join ''/'' ps)
           \<in> set (collect_internal_pages out base_url)"
proof (cases "ps = [''index.html'']")
  case True
  with assms have "exists out ''index.html''" by (simp add: exists_def)
  with True show ?thesis by (simp add: root_listed)
next
  case False
  from assms have ne: "ps \<noteq> []" by auto
  with False have "join ''/'' ps \<noteq> ''index.html''" using join_index by blast
  moreover have "join ''/'' ps \<in> set (rglob_html out)" using assms by (rule lookup_path_rglob)
  ultimately show ?thesis using False by (simp add: set_collect)
qed

section \<open>Effects of the steps on the output tree\<close>

lemma and_then_ok:
  "and_then s1 s2 out = (None, out'') \<longleftrightarrow> (\<exists>out'. s1 out = (None, out') \<and> s2 out' = (None, out''))"
  by (auto simp add: and_then_def split: prod.splits option.splits)

lemma write_text_ok:
  "write_text k t out = (None, out') \<longleftrightarrow> \<not> is_dir_at out k \<and> out' = AList.update k (File t) out"
  by (auto simp add: write_text_def)

lemma map_of_write: "map_of (AList.update k v out) = (map_of out)(k \<mapsto> v)"
  by (rule update_conv')

lemma exists_update: "exists (AList.update k v out) n \<longleftrightarrow> n = k \<or> exists out n"
  by (simp add: exists_def update_conv')

lemma is_dir_at_update_file:
  "is_dir_at (AList.update k (File t) out) n \<longleftrightarrow> n \<noteq> k \<and> is_dir_at out n"
  by (simp add: is_dir_at_def update_conv')

lemma rglob_update_file:
  "\<not> is_dir_at out k \<Longrightarrow>
     set (rglob_html (AList.update k (File t) out))
       = set (rglob_html out) \<union> (if fnmatch_html k then {k} else {})"
proof (induction out)
  case Nil
  then show ?case by simp
next
  case (Cons e es)
  obtain a b where e: "e = (a, b)" by (cases e)
  show ?case
  proof (cases "a = k")
    case True
    with Cons.prems e obtain c where "b = File c"
      by (cases b) (simp_all add: is_dir_at_def)
    with True e show ?thesis by auto
  next
    case False
    with Cons.prems e have "\<not> is_dir_at es k" by (simp add: is_dir_at_def)
    with Cons.IH have "set (rglob_html (AList.update k (File t) es))
       = set (rglob_html es) \<union> (if fnmatch_html k then {k} else {})" by simp
    with False e show ?thesis by auto
  qed
qed

lemma collect_cong:
  assumes "set (rglob_html A) = set (rglob_html B)"
    and "exists A ''index.html'' = exists B ''index.html''"
    and "\<And>n. n \<in> set allow_list \<Longrightarrow> exists A n = exists B n"
  shows "collect_internal_pages A base_url = collect_internal_pages B base_url"
proof -
  have "{name \<in> set allow_list. exists A name} = {name \<in> set allow_list. exists B name}"
    using assms(3) by blast
  with assms(1,2) show ?thesis by (simp add: collect_sorted_list)
qed

subsection \<open>The token copier\<close>

lemma copy_if_missing_noop: "exists out (fst p) \<Longrightarrow> copy_if_missing p out = (None, out)"
  by (simp add: copy_if_missing_def)

lemma copy_if_missing_ok:
  "copy_if_missing p out = (None, out') \<Longrightarrow>
     exists out' (fst p) \<and> (\<forall>n. exists out n \<longrightarrow> exists out' n)"
  by (auto simp add: copy_if_missing_def exists_update split: if_splits node.splits)

lemma for_each_noop:
  "(\<And>x. x \<in> set xs \<Longrightarrow> f x out = (None, out)) \<Longrightarrow> for_each f xs out = (None, out)"
  by (induction xs) auto

lemma for_each_mono:
  assumes "\<forall>x o1 o2 n. f x o1 = (None, o2) \<longrightarrow> exists o1 n \<longrightarrow> exists o2 n"
  shows "for_each f xs out = (None, out') \<Longrightarrow> exists out n \<Longrightarrow> exists out' n"
proof (induction xs arbitrary: out)
  case Nil
  then show ?case by simp
next
  case (Cons x xs)
  from Cons.prems(1) obtain o1 where a: "f x out = (None, o1)" and b: "for_each f xs o1 = (None, out')"
    by (auto split: prod.splits option.splits)
  from assms a Cons.prems(2) have "exists o1 n" by blast
  with Cons.IH[OF b] show ?case .
qed

lemma for_each_establishes:
  assumes mono: "\<forall>x o1 o2 n. f x o1 = (None, o2) \<longrightarrow> exists o1 n \<longrightarrow> exists o2 n"
    and est: "\<forall>x o1 o2. f x o1 = (None, o2) \<longrightarrow> P x \<longrightarrow> exists o2 (g x)"
  shows "for_each f xs out = (None, out') \<Longrightarrow> x \<in> set xs \<Longrightarrow> P x \<Longrightarrow> exists out' (g x)"
proof (induction xs arbitrary: out)
  case Nil
  then show ?case by simp
next
  case (Cons y ys)
  from Cons.prems(1) obtain o1 where a: "f y out = (None, o1)" and b: "for_each f ys o1 = (None, out')"
    by (auto split: prod.splits option.splits)
  show ?case
  proof (cases "x = y")
    case True
    with est a Cons.prems(3) have "exists o1 (g x)" by blast
    then show ?thesis using for_each_mono[OF mono b] by blast
  next
    case False
    with Cons.prems(2) have "x \<in> set ys" by simp
    with Cons.IH[OF b] Cons.prems(3) show ?thesis by simp
  qed
qed

lemma copy_if_missing_mono:
  "\<forall>p o1 o2 n. copy_if_missing p o1 = (None, o2) \<longrightarrow> exists o1 n \<longrightarrow> exists o2 n"
  using copy_if_missing_ok by blast

lemma copy_if_missing_est:
  "\<forall>p o1 o2. copy_if_missing p o1 = (None, o2) \<longrightarrow> True \<longrightarrow> exists o2 (fst p)"
  using copy_if_missing_ok by blast

lemma copy_if_key_mono:
  "\<forall>p o1 o2 n. copy_if_key p o1 = (None, o2) \<longrightarrow> exists o1 n \<longrightarrow> exists o2 n"
  using copy_if_missing_ok by (auto simp add: copy_if_key_def split: if_splits)

lemma copy_if_key_est:
  "\<forall>p o1 o2. copy_if_key p o1 = (None, o2) \<longrightarrow> indexnow_key_re_match (fst p)
      \<longrightarrow> exists o2 (fst p)"
  using copy_if_missing_ok by (auto simp add: copy_if_key_def)

lemma copy_root_tokens_ok:
  "copy_root_tokens (Some docs) out = (None, c) \<longleftrightarrow>
     (\<exists>g. for_each copy_if_missing (filter (\<lambda>p. glob_google_html (fst p)) docs) out = (None, g)
          \<and> for_each copy_if_key (filter (\<lambda>p. glob_txt (fst p)) docs) g = (None, c))"
  by (simp add: copy_root_tokens_def and_then_ok)

lemma copy_root_tokens_mono:
  assumes "copy_root_tokens docs out = (None, c)" and "exists out n"
  shows "exists c n"
proof (cases docs)
  case None
  with assms show ?thesis by (simp add: copy_root_tokens_def)
next
  case (Some ds)
  with assms(1) obtain g where
    g: "for_each copy_if_missing (filter (\<lambda>p. glob_google_html (fst p)) ds) out = (None, g)"
    and c: "for_each copy_if_key (filter (\<lambda>p. glob_txt (fst p)) ds) g = (None, c)"
    by (auto simp add: copy_root_tokens_ok)
  have "exists g n"
    using for_each_mono[OF copy_if_missing_mono g assms(2)] .
  then show ?thesis
    using for_each_mono[OF copy_if_key_mono c] by blast
qed

lemma copy_root_tokens_rerun:
  assumes run: "copy_root_tokens docs out = (None, c)"
    and sup: "\<And>n. exists c n \<Longrightarrow> exists X n"
  shows "copy_root_tokens docs X = (None, X)"
proof (cases docs)
  case None
  then show ?thesis by (simp add: copy_root_tokens_def)
next
  case (Some ds)
  with run obtain g where
    g: "for_each copy_if_missing (filter (\<lambda>p. glob_google_html (fst p)) ds) out = (None, g)"
    and c: "for_each copy_if_key (filter (\<lambda>p. glob_txt (fst p)) ds) g = (None, c)"
    by (auto simp add: copy_root_tokens_ok)
  have gc: "\<And>n. exists g n \<Longrightarrow> exists c n"
    using for_each_mono[OF copy_if_key_mono c] by blast
  have 1: "for_each copy_if_missing (filter (\<lambda>p. glob_google_html (fst p)) ds) X = (None, X)"
  proof (rule for_each_noop)
    fix p assume p: "p \<in> set (filter (\<lambda>p. glob_google_html (fst p)) ds)"
    have "exists g (fst p)"
      using for_each_establishes[OF copy_if_missing_mono copy_if_missing_est g p] by simp
    then have "exists X (fst p)" using gc sup by blast
    then show "copy_if_missing p X = (None, X)" by (rule copy_if_missing_noop)
  qed
  have 2: "for_each copy_if_key (filter (\<lambda>p. glob_txt (fst p)) ds) X = (None, X)"
  proof (rule for_each_noop)
    fix p assume p: "p \<in> set (filter (\<lambda>p. glob_txt (fst p)) ds)"
    show "copy_if_key p X = (None, X)"
    proof (cases "indexnow_key_re_match (fst p)")
      case False
      then show ?thesis by (simp add: copy_if_key_def)
    next
      case True
      have "exists c (fst p)"
        using for_each_establishes[OF copy_if_key_mono copy_if_key_est c p True] .
      then have "exists X (fst p)" by (rule sup)
      with True show ?thesis by (simp add: copy_if_key_def copy_if_missing_noop)
    qed
  qed
  from 1 2 Some show ?thesis by (auto simp add: copy_root_tokens_ok)
qed

subsection \<open>A run of the pipeline and a second run\<close>

lemma rglob_update_plain:
  "\<not> is_dir_at out k \<Longrightarrow> \<not> fnmatch_html k \<Longrightarrow>
     set (rglob_html (AList.update k (File t) out)) = set (rglob_html out)"
  by (simp add: rglob_update_file)

lemma not_html_names:
  "\<not> fnmatch_html ''robots.txt''" "\<not> fnmatch_html ''rss.xml''" "\<not> fnmatch_html ''sitemap.xml''"
  "\<not> fnmatch_html ''_redirects''" "\<not> fnmatch_html ''_headers''"
  by (simp_all add: fnmatch_html_def endswith_def)

lemma rss_item_time: "isl (rss_item e p1 u) = isl (rss_item e p2 u)"
  by (simp add: rss_item_def split: json.splits sum.splits)

lemma rss_items_time: "isl (rss_items e p1 us) = isl (rss_items e p2 us)"
proof (induction us)
  case Nil
  then show ?case by simp
next
  case (Cons u us)
  with rss_item_time[of e p1 u p2] show ?case
    by (auto split: sum.splits)
qed

lemma render_rss_time:
  "render_rss csv ej base_url now1 = Inr r1 \<Longrightarrow> \<exists>r2. render_rss csv ej base_url now2 = Inr r2"
  using rss_items_time[of "dict_get_or_empty (load_enriched ej) ''items''" "format_datetime now1"
          "rev (read_recent_urls csv 50)" "format_datetime now2"]
  by (auto simp add: render_rss_def Let_def split: sum.splits)

lemma pipeline_ok:
  "pipeline w base_url now_utc out = (None, out5) \<longleftrightarrow>
     (\<exists>c rss s m.
        copy_root_tokens (docs_dir w) out = (None, c)
        \<and> render_rss (daily_csv w) (enriched_json w) base_url now_utc = Inr rss
        \<and> \<not> is_dir_at c ''robots.txt'' \<and> \<not> is_dir_at c ''rss.xml''
        \<and> \<not> is_dir_at c ''sitemap.xml'' \<and> \<not> is_dir_at c ''_redirects''
        \<and> \<not> is_dir_at c ''_headers''
        \<and> s = AList.update ''rss.xml'' (File (xml_write rss))
                (AList.update ''robots.txt'' (File (robots_text base_url)) c)
        \<and> m = AList.update ''sitemap.xml''
                (File (xml_write (sitemap_urlset (collect_internal_pages s base_url)
                                                 (date_isoformat now_utc)))) s
        \<and> out5 = AList.update ''_headers'' (File headers_text)
                   (AList.update ''_redirects'' (File (redirects_text m)) m))"
proof (cases "render_rss (daily_csv w) (enriched_json w) base_url now_utc")
  case (Inl e)
  then show ?thesis
    by (simp add: pipeline_def and_then_ok ensure_robots_def ensure_rss_def write_text_ok)
next
  case (Inr rss)
  then show ?thesis
    by (auto simp add: pipeline_def and_then_ok ensure_robots_def ensure_rss_def
          ensure_sitemap_def ensure_netlify_overrides_def write_text_ok Let_def
          is_dir_at_update_file headers_text_def redirects_text_def)
qed

lemma collect_idem:
  "sorted_list_of_set (set (collect_internal_pages out base_url)) = collect_internal_pages out base_url"
  by (simp add: sorted_list_of_set.idem_if_sorted_distinct sorted_collect distinct_collect)

lemma filter_exists_insert:
  assumes "\<And>n. e2 n \<longleftrightarrow> n = a \<or> n = b \<or> n = s \<or> n = d \<or> n = h \<or> e n"
    and "\<And>n. e1 n \<longleftrightarrow> n = a \<or> n = b \<or> e n"
    and "s \<in> A" and "d \<notin> A" and "h \<notin> A"
  shows "{n \<in> A. e2 n} = insert s {n \<in> A. e1 n}"
  using assms by blast

lemma pipeline_rerun:
  assumes run1: "pipeline w base_url now1 out = (None, out1)"
  shows "\<exists>out1' out2 rss U1 U2.
           pipeline w base_url now2 out = (None, out1')
         \<and> pipeline w base_url now2 out1 = (None, out2)
         \<and> render_rss (daily_csv w) (enriched_json w) base_url now2 = Inr rss
         \<and> map_of out1' ''robots.txt'' = Some (File (robots_text base_url))
         \<and> map_of out2 ''robots.txt'' = Some (File (robots_text base_url))
         \<and> map_of out1' ''rss.xml'' = Some (File (xml_write rss))
         \<and> map_of out2 ''rss.xml'' = Some (File (xml_write rss))
         \<and> map_of out1' ''sitemap.xml''
              = Some (File (xml_write (sitemap_urlset U1 (date_isoformat now2))))
         \<and> map_of out2 ''sitemap.xml''
              = Some (File (xml_write (sitemap_urlset U2 (date_isoformat now2))))
         \<and> U2 = sorted_list_of_set (insert (base_url @ ''/sitemap.xml'') (set U1))
         \<and> (exists out ''sitemap.xml'' \<longrightarrow> U2 = U1)"
proof -
  from run1 obtain c rss1 where
    copy1: "copy_root_tokens (docs_dir w) out = (None, c)"
    and rss1: "render_rss (daily_csv w) (enriched_json w) base_url now1 = Inr rss1"
    and nd: "\<not> is_dir_at c ''robots.txt''" "\<not> is_dir_at c ''rss.xml''"
      "\<not> is_dir_at c ''sitemap.xml''" "\<not> is_dir_at c ''_redirects''"
      "\<not> is_dir_at c ''_headers''"
    and out1: "out1 = AList.update ''_headers'' (File headers_text)
        (AList.update ''_redirects''
          (File (redirects_text
            (AList.update ''sitemap.xml''
              (File (xml_write (sitemap_urlset
                (collect_internal_pages
                  (AList.update ''rss.xml'' (File (xml_write rss1))
                    (AList.update ''robots.txt'' (File (robots_text base_url)) c)) base_url)
                (date_isoformat now1))))
              (AList.update ''rss.xml'' (File (xml_write rss1))
                (AList.update ''robots.txt'' (File (robots_text base_url)) c)))))
          (AList.update ''sitemap.xml''
            (File (xml_write (sitemap_urlset
              (collect_internal_pages
                (AList.update ''rss.xml'' (File (xml_write rss1))
                  (AList.update ''robots.txt'' (File (robots_text base_url)) c)) base_url)
              (date_isoformat now1))))
            (AList.update ''rss.xml'' (File (xml_write rss1))
              (AList.update ''robots.txt'' (File (robots_text base_url)) c))))"
    unfolding pipeline_ok by blast
  from render_rss_time[OF rss1] obtain rss2 where
    rss2: "render_rss (daily_csv w) (enriched_json w) base_url now2 = Inr rss2" by blast
  define s1 where "s1 = AList.update ''rss.xml'' (File (xml_write rss2))
                          (AList.update ''robots.txt'' (File (robots_text base_url)) c)"
  define m1 where "m1 = AList.update ''sitemap.xml''
      (File (xml_write (sitemap_urlset (collect_internal_pages s1 base_url) (date_isoformat now2)))) s1"
  define o1 where "o1 = AList.update ''_headers'' (File headers_text)
                          (AList.update ''_redirects'' (File (redirects_text m1)) m1)"
  have runA: "pipeline w base_url now2 out = (None, o1)"
    unfolding pipeline_ok using copy1 rss2 nd s1_def m1_def o1_def by blast
  have sup: "\<And>n. exists c n \<Longrightarrow> exists out1 n"
    by (simp add: out1 exists_update)
  have copy2: "copy_root_tokens (docs_dir w) out1 = (None, out1)"
    using copy1 sup by (rule copy_root_tokens_rerun)
  have nd2: "\<not> is_dir_at out1 ''robots.txt''" "\<not> is_dir_at out1 ''rss.xml''"
      "\<not> is_dir_at out1 ''sitemap.xml''" "\<not> is_dir_at out1 ''_redirects''"
      "\<not> is_dir_at out1 ''_headers''"
    by (simp_all add: out1 is_dir_at_update_file)
  define s2 where "s2 = AList.update ''rss.xml'' (File (xml_write rss2))
                          (AList.update ''robots.txt'' (File (robots_text base_url)) out1)"
  define m2 where "m2 = AList.update ''sitemap.xml''
      (File (xml_write (sitemap_urlset (collect_internal_pages s2 base_url) (date_isoformat now2)))) s2"
  define o2 where "o2 = AList.update ''_headers'' (File headers_text)
                          (AList.update ''_redirects'' (File (redirects_text m2)) m2)"
  have runB: "pipeline w base_url now2 out1 = (None, o2)"
    unfolding pipeline_ok using copy2 rss2 nd2 s2_def m2_def o2_def by blast
  have rg1: "set (rglob_html s1) = set (rglob_html c)"
    using nd by (simp add: s1_def rglob_update_plain is_dir_at_update_file not_html_names)
  have rg2: "set (rglob_html s2) = set (rglob_html c)"
    using nd by (simp add: s2_def out1 rglob_update_plain is_dir_at_update_file not_html_names)
  have ex1: "\<And>n. exists s1 n \<longleftrightarrow> n = ''rss.xml'' \<or> n = ''robots.txt'' \<or> exists c n"
    by (simp add: s1_def exists_update)
  have ex2: "\<And>n. exists s2 n \<longleftrightarrow> n = ''rss.xml'' \<or> n = ''robots.txt'' \<or> n = ''sitemap.xml''
                \<or> n = ''_redirects'' \<or> n = ''_headers'' \<or> exists c n"
    by (auto simp add: s2_def out1 exists_update)
  have sets: "set (collect_internal_pages s2 base_url)
                = insert (base_url @ ''/sitemap.xml'') (set (collect_internal_pages s1 base_url))"
  proof -
    have idx: "exists s2 ''index.html'' = exists s1 ''index.html''"
      by (simp add: ex1 ex2)
    have in_al: "''sitemap.xml'' \<in> set allow_list"
      by (simp add: allow_list_def)
    have out_al: "''_redirects'' \<notin> set allow_list" "''_headers'' \<notin> set allow_list"
      by (simp_all add: allow_list_def)
    have al: "{name \<in> set allow_list. exists s2 name}
                = insert ''sitemap.xml'' {name \<in> set allow_list. exists s1 name}"
      by (rule filter_exists_insert[OF ex2 ex1 in_al out_al])
    show ?thesis
      unfolding set_collect rg1 rg2 idx al by simp
  qed
  have U2: "collect_internal_pages s2 base_url
              = sorted_list_of_set (insert (base_url @ ''/sitemap.xml'')
                                      (set (collect_internal_pages s1 base_url)))"
  proof -
    have "collect_internal_pages s2 base_url
            = sorted_list_of_set (set (collect_internal_pages s2 base_url))"
      by (simp only: collect_idem)
    then show ?thesis by (simp only: sets)
  qed
  have same: "exists out ''sitemap.xml'' \<longrightarrow>
                collect_internal_pages s2 base_url = collect_internal_pages s1 base_url"
  proof
    assume "exists out ''sitemap.xml''"
    with copy1 have "exists c ''sitemap.xml''" by (rule copy_root_tokens_mono)
    then have "base_url @ ''/sitemap.xml'' \<in> set (collect_internal_pages s1 base_url)"
      unfolding set_collect ex1 by (simp add: allow_list_def)
    with sets have "set (collect_internal_pages s2 base_url) = set (collect_internal_pages s1 base_url)"
      by auto
    then have "sorted_list_of_set (set (collect_internal_pages s2 base_url))
                 = sorted_list_of_set (set (collect_internal_pages s1 base_url))"
      by (rule arg_cong)
    then show "collect_internal_pages s2 base_url = collect_internal_pages s1 base_url"
      by (simp only: collect_idem)
  qed
  have d1: "map_of o1 ''robots.txt'' = Some (File (robots_text base_url))"
    "map_of o2 ''robots.txt'' = Some (File (robots_text base_url))"
    by (simp_all add: o1_def o2_def m1_def m2_def s1_def s2_def update_conv')
  have d2: "map_of o1 ''rss.xml'' = Some (File (xml_write rss2))"
    "map_of o2 ''rss.xml'' = Some (File (xml_write rss2))"
    by (simp_all add: o1_def o2_def m1_def m2_def s1_def s2_def update_conv')
  have d3: "map_of o1 ''sitemap.xml''
      = Some (File (xml_write (sitemap_urlset (collect_internal_pages s1 base_url) (date_isoformat now2))))"
    by (simp add: o1_def m1_def update_conv')
  have d4: "map_of o2 ''sitemap.xml''
      = Some (File (xml_write (sitemap_urlset (collect_internal_pages s2 base_url) (date_isoformat now2))))"
    by (simp add: o2_def m2_def update_conv')
  from runA runB rss2 d1 d2 d3 d4 U2 same show ?thesis by blast
qed

subsection \<open>The driver\<close>

lemma pipeline_world: "pipeline (w\<lparr>out_dir := d\<rparr>) = pipeline w"
  by (rule ext)+ (simp add: pipeline_def)

lemma main_ok:
  "main argv now_utc w = (None, w') \<longleftrightarrow>
     3 \<le> length argv \<and> startswith (norm_base_url (argv ! 2)) ''http''
     \<and> (\<exists>out out'. out_dir w = Some (Dir out)
            \<and> pipeline w (norm_base_url (argv ! 2)) now_utc out = (None, out')
            \<and> w' = w\<lparr>out_dir := Some (Dir out')\<rparr>)"
  by (auto simp add: main_def Let_def split: option.splits node.splits prod.splits)

lemma pipeline_succeeds:
  assumes "copy_root_tokens (docs_dir w) out = (None, c)"
    and "render_rss (daily_csv w) (enriched_json w) base_url now_utc = Inr rss"
    and "\<not> is_dir_at c ''robots.txt''" and "\<not> is_dir_at c ''rss.xml''"
    and "\<not> is_dir_at c ''sitemap.xml''" and "\<not> is_dir_at c ''_redirects''"
    and "\<not> is_dir_at c ''_headers''"
  shows "\<exists>out5. pipeline w base_url now_utc out = (None, out5)"
  using assms by (simp add: pipeline_ok)

lemma collect3:
  "collect_internal_pages
     [(''index.html'', File a), (''robots.txt'', File b), (''rss.xml'', File c)] ''https://x''
   = [''https://x/'', ''https://x/robots.txt'', ''https://x/rss.xml'']"
  by code_simp

lemma collect6:
  "collect_internal_pages
     [(''index.html'', File a), (''robots.txt'', File b), (''rss.xml'', File c),
      (''sitemap.xml'', File d), (''_redirects'', File e), (''_headers'', File f)] ''https://x''
   = [''https://x/'', ''https://x/robots.txt'', ''https://x/rss.xml'', ''https://x/sitemap.xml'']"
  by code_simp

lemma norm_eval: "norm_base_url ''https://x'' = ''https://x''"
  by (simp add: norm_base_url_def strip_def rstrip_slash_def is_space_def)

lemma render_empty:
  "render_rss None Missing base_url now_utc
     = Inr (rss_channel base_url (format_datetime now_utc) [])"
  by (simp add: render_rss_def read_recent_urls_def)

lemma sitemaps_differ:
  "xml_write (sitemap_urlset [''https://x/'', ''https://x/robots.txt'', ''https://x/rss.xml'',
                              ''https://x/sitemap.xml''] ''2026-11-04'')
   \<noteq> xml_write (sitemap_urlset [''https://x/'', ''https://x/robots.txt'', ''https://x/rss.xml'']
                              ''2026-11-04'')"
  by (simp add: xml_write_def sitemap_urlset_def sitemap_url_def escape_cdata_def)

text \<open>
  Claim C5, amended.  When a run succeeds, a second run on the tree it left succeeds too,
  and at whatever times the two runs happen the second run writes the \<^verbatim>\<open>robots.txt\<close>
  and the \<^verbatim>\<open>rss.xml\<close> that a first run at the second run's time writes: the two runs'
  documents differ in the time stamps only.  The URLs of the second run's sitemap are
  those of the first run's with \<^verbatim>\<open>base_url/sitemap.xml\<close> added, so the sitemap is the
  same too when \<^verbatim>\<open>sitemap.xml\<close> was in the output tree before the first run, as it is
  from the second run on.
\<close>

theorem second_run_same_documents:
  assumes "main argv now1 w = (None, w1)"
  shows "\<exists>w1' w2 rss U1 U2.
           main argv now2 w = (None, w1')
         \<and> main argv now2 w1 = (None, w2)
         \<and> render_rss (daily_csv w) (enriched_json w) (norm_base_url (argv ! 2)) now2 = Inr rss
         \<and> document w1' ''robots.txt'' = Some (File (robots_text (norm_base_url (argv ! 2))))
         \<and> document w2 ''robots.txt'' = Some (File (robots_text (norm_base_url (argv ! 2))))
         \<and> document w1' ''rss.xml'' = Some (File (xml_write rss))
         \<and> document w2 ''rss.xml'' = Some (File (xml_write rss))
         \<and> document w1' ''sitemap.xml''
              = Some (File (xml_write (sitemap_urlset U1 (date_isoformat now2))))
         \<and> document w2 ''sitemap.xml''
              = Some (File (xml_write (sitemap_urlset U2 (date_isoformat now2))))
         \<and> U2 = sorted_list_of_set
                  (insert (norm_base_url (argv ! 2) @ ''/sitemap.xml'') (set U1))
         \<and> (document w ''sitemap.xml'' \<noteq> None \<longrightarrow> U2 = U1)"
proof -
  define b where "b = norm_base_url (argv ! 2)"
  from assms obtain out out1 where
    len: "3 \<le> length argv" and http: "startswith b ''http''"
    and out: "out_dir w = Some (Dir out)"
    and run1: "pipeline w b now1 out = (None, out1)"
    and w1: "w1 = w\<lparr>out_dir := Some (Dir out1)\<rparr>"
    unfolding main_ok b_def by blast
  from pipeline_rerun[OF run1, of now2] obtain o1 o2 rss U1 U2 where
    runA: "pipeline w b now2 out = (None, o1)"
    and runB: "pipeline w b now2 out1 = (None, o2)"
    and rss: "render_rss (daily_csv w) (enriched_json w) b now2 = Inr rss"
    and docs: "map_of o1 ''robots.txt'' = Some (File (robots_text b))"
      "map_of o2 ''robots.txt'' = Some (File (robots_text b))"
      "map_of o1 ''rss.xml'' = Some (File (xml_write rss))"
      "map_of o2 ''rss.xml'' = Some (File (xml_write rss))"
      "map_of o1 ''sitemap.xml'' = Some (File (xml_write (sitemap_urlset U1 (date_isoformat now2))))"
      "map_of o2 ''sitemap.xml'' = Some (File (xml_write (sitemap_urlset U2 (date_isoformat now2))))"
    and U2: "U2 = sorted_list_of_set (insert (b @ ''/sitemap.xml'') (set U1))"
    and same: "exists out ''sitemap.xml'' \<longrightarrow> U2 = U1"
    by blast
  have mA: "main argv now2 w = (None, w\<lparr>out_dir := Some (Dir o1)\<rparr>)"
    unfolding main_ok using len http out runA by (simp add: b_def)
  have mB: "main argv now2 w1 = (None, w\<lparr>out_dir := Some (Dir o2)\<rparr>)"
    unfolding main_ok using len http runB by (simp add: b_def w1 pipeline_world)
  have ex: "document w ''sitemap.xml'' \<noteq> None \<longrightarrow> exists out ''sitemap.xml''"
    by (simp add: document_def out exists_def)
  have dA: "\<And>n. document (w\<lparr>out_dir := Some (Dir o1)\<rparr>) n = map_of o1 n"
    and dB: "\<And>n. document (w\<lparr>out_dir := Some (Dir o2)\<rparr>) n = map_of o2 n"
    by (simp_all add: document_def)
  show ?thesis
    using mA mB rss docs U2 same ex unfolding b_def[symmetric] dA[symmetric] dB[symmetric]
    by blast
qed

theorem second_run_same_documents_witness:
  "\<exists>w1 w1' w2.
     main [''netlify_fix.py'', ''site'', ''https://x'']
       \<lparr>dt_year = 2026, dt_month = 11, dt_day = 4, dt_hour = 14, dt_minute = 23, dt_second = 5\<rparr>
       \<lparr>out_dir = Some (Dir [(''index.html'', File ''home''), (''sitemap.xml'', File ''old'')]),
        daily_csv = None, enriched_json = Missing, docs_dir = None,
        resolve = (\<lambda>p. ''/srv/'' @ p)\<rparr> = (None, w1)
   \<and> main [''netlify_fix.py'', ''site'', ''https://x'']
       \<lparr>dt_year = 2026, dt_month = 11, dt_day = 5, dt_hour = 9, dt_minute = 0, dt_second = 0\<rparr>
       \<lparr>out_dir = Some (Dir [(''index.html'', File ''home''), (''sitemap.xml'', File ''old'')]),
        daily_csv = None, enriched_json = Missing, docs_dir = None,
        resolve = (\<lambda>p. ''/srv/'' @ p)\<rparr> = (None, w1')
   \<and> main [''netlify_fix.py'', ''site'', ''https://x'']
       \<lparr>dt_year = 2026, dt_month = 11, dt_day = 5, dt_hour = 9, dt_minute = 0, dt_second = 0\<rparr>
       w1 = (None, w2)
   \<and> document w2 ''robots.txt'' = document w1' ''robots.txt''
   \<and> document w2 ''rss.xml'' = document w1' ''rss.xml''
   \<and> document w2 ''sitemap.xml'' = document w1' ''sitemap.xml''
   \<and> document w2 ''sitemap.xml'' \<noteq> None"
proof -
  define N1 where "N1 = \<lparr>dt_year = 2026, dt_month = 11, dt_day = 4, dt_hour = 14,
                           dt_minute = 23, dt_second = 5\<rparr>"
  define N2 where "N2 = \<lparr>dt_year = 2026, dt_month = 11, dt_day = 5, dt_hour = 9,
                           dt_minute = 0, dt_second = 0\<rparr>"
  define W where "W = \<lparr>out_dir = Some (Dir [(''index.html'', File ''home''),
                                               (''sitemap.xml'', File ''old'')]),
                         daily_csv = None, enriched_json = Missing, docs_dir = None,
        resolve = (\<lambda>p. ''/srv/'' @ p)\<rparr>"
  have "\<exists>out5. pipeline W ''https://x'' N1
                  [(''index.html'', File ''home''), (''sitemap.xml'', File ''old'')] = (None, out5)"
    by (rule pipeline_succeeds[where c = "[(''index.html'', File ''home''),
                                           (''sitemap.xml'', File ''old'')]"])
       (simp_all add: W_def copy_root_tokens_def render_empty is_dir_at_def)
  then obtain o1 where
    "pipeline W ''https://x'' N1 [(''index.html'', File ''home''), (''sitemap.xml'', File ''old'')]
       = (None, o1)" by blast
  then have run1: "main [''netlify_fix.py'', ''site'', ''https://x''] N1 W
                     = (None, W\<lparr>out_dir := Some (Dir o1)\<rparr>)"
    unfolding main_ok by (simp add: norm_eval startswith_def W_def)
  have pre: "document W ''sitemap.xml'' \<noteq> None"
    by (simp add: document_def W_def)
  from second_run_same_documents[OF run1, of N2] obtain w1' w2 rss U1 U2 where
    a: "main [''netlify_fix.py'', ''site'', ''https://x''] N2 W = (None, w1')"
    and b: "main [''netlify_fix.py'', ''site'', ''https://x''] N2 (W\<lparr>out_dir := Some (Dir o1)\<rparr>)
              = (None, w2)"
    and r: "document w1' ''robots.txt'' = Some (File (robots_text
              (norm_base_url ([''netlify_fix.py'', ''site'', ''https://x''] ! 2))))"
      "document w2 ''robots.txt'' = Some (File (robots_text
              (norm_base_url ([''netlify_fix.py'', ''site'', ''https://x''] ! 2))))"
    and x: "document w1' ''rss.xml'' = Some (File (xml_write rss))"
      "document w2 ''rss.xml'' = Some (File (xml_write rss))"
    and s: "document w1' ''sitemap.xml''
              = Some (File (xml_write (sitemap_urlset U1 (date_isoformat N2))))"
      "document w2 ''sitemap.xml''
              = Some (File (xml_write (sitemap_urlset U2 (date_isoformat N2))))"
    and same: "document W ''sitemap.xml'' \<noteq> None \<longrightarrow> U2 = U1"
    by blast
  from same pre have "U2 = U1" by simp
  with r x s have docs: "document w2 ''robots.txt'' = document w1' ''robots.txt''"
    "document w2 ''rss.xml'' = document w1' ''rss.xml''"
    "document w2 ''sitemap.xml'' = document w1' ''sitemap.xml''"
    "document w2 ''sitemap.xml'' \<noteq> None"
    by simp_all
  have "\<exists>w1 w1' w2.
     main [''netlify_fix.py'', ''site'', ''https://x''] N1 W = (None, w1)
   \<and> main [''netlify_fix.py'', ''site'', ''https://x''] N2 W = (None, w1')
   \<and> main [''netlify_fix.py'', ''site'', ''https://x''] N2 w1 = (None, w2)
   \<and> document w2 ''robots.txt'' = document w1' ''robots.txt''
   \<and> document w2 ''rss.xml'' = document w1' ''rss.xml''
   \<and> document w2 ''sitemap.xml'' = document w1' ''sitemap.xml''
   \<and> document w2 ''sitemap.xml'' \<noteq> None"
    using run1 a b docs by blast
  then show ?thesis unfolding N1_def N2_def W_def .
qed

text \<open>
  The claim as stated fails on a tree without \<^verbatim>\<open>sitemap.xml\<close>: the collector looks for
  that file before the sitemap renderer has written it, so the first run's sitemap does
  not list it and the second run's does, with both runs at the same time.
\<close>

theorem second_run_changes_sitemap:
  "\<exists>w1 w2.
     main [''netlify_fix.py'', ''site'', ''https://x'']
       \<lparr>dt_year = 2026, dt_month = 11, dt_day = 4, dt_hour = 14, dt_minute = 23, dt_second = 5\<rparr>
       \<lparr>out_dir = Some (Dir [(''index.html'', File ''home'')]), daily_csv = None,
        enriched_json = Missing, docs_dir = None,
        resolve = (\<lambda>p. ''/srv/'' @ p)\<rparr> = (None, w1)
   \<and> main [''netlify_fix.py'', ''site'', ''https://x'']
       \<lparr>dt_year = 2026, dt_month = 11, dt_day = 4, dt_hour = 14, dt_minute = 23, dt_second = 5\<rparr>
       w1 = (None, w2)
   \<and> document w2 ''sitemap.xml'' \<noteq> document w1 ''sitemap.xml''"
proof -
  define N where "N = \<lparr>dt_year = 2026, dt_month = 11, dt_day = 4, dt_hour = 14,
                         dt_minute = 23, dt_second = 5\<rparr>"
  define W where "W = \<lparr>out_dir = Some (Dir [(''index.html'', File ''home'')]),
                         daily_csv = None, enriched_json = Missing, docs_dir = None,
        resolve = (\<lambda>p. ''/srv/'' @ p)\<rparr>"
  define rss where "rss = xml_write (rss_channel ''https://x'' (format_datetime N) [])"
  define S1 where "S1 = xml_write (sitemap_urlset
      [''https://x/'', ''https://x/robots.txt'', ''https://x/rss.xml''] (date_isoformat N))"
  define S2 where "S2 = xml_write (sitemap_urlset
      [''https://x/'', ''https://x/robots.txt'', ''https://x/rss.xml'', ''https://x/sitemap.xml'']
      (date_isoformat N))"
  define M1 where "M1 = [(''index.html'', File ''home''),
      (''robots.txt'', File (robots_text ''https://x'')), (''rss.xml'', File rss),
      (''sitemap.xml'', File S1)]"
  define O1 where "O1 = M1 @ [(''_redirects'', File (redirects_text M1)),
      (''_headers'', File headers_text)]"
  define M2 where "M2 = [(''index.html'', File ''home''),
      (''robots.txt'', File (robots_text ''https://x'')), (''rss.xml'', File rss),
      (''sitemap.xml'', File S2), (''_redirects'', File (redirects_text M1)),
      (''_headers'', File headers_text)]"
  define O2 where "O2 = [(''index.html'', File ''home''),
      (''robots.txt'', File (robots_text ''https://x'')), (''rss.xml'', File rss),
      (''sitemap.xml'', File S2), (''_redirects'', File (redirects_text M2)),
      (''_headers'', File headers_text)]"
  have run1: "pipeline W ''https://x'' N [(''index.html'', File ''home'')] = (None, O1)"
    by (simp add: pipeline_ok W_def copy_root_tokens_def render_empty is_dir_at_def collect3
          O1_def M1_def S1_def rss_def)
  have run2: "pipeline W ''https://x'' N O1 = (None, O2)"
    by (simp add: pipeline_ok W_def copy_root_tokens_def render_empty is_dir_at_def collect6
          O1_def M1_def O2_def M2_def S2_def rss_def)
  have m1: "main [''netlify_fix.py'', ''site'', ''https://x''] N W
              = (None, W\<lparr>out_dir := Some (Dir O1)\<rparr>)"
    unfolding main_ok using run1 by (simp add: norm_eval startswith_def W_def)
  have m2: "main [''netlify_fix.py'', ''site'', ''https://x''] N (W\<lparr>out_dir := Some (Dir O1)\<rparr>)
              = (None, W\<lparr>out_dir := Some (Dir O2)\<rparr>)"
    unfolding main_ok using run2 by (simp add: norm_eval startswith_def pipeline_world)
  have "S2 \<noteq> S1"
    using sitemaps_differ by (simp add: S1_def S2_def N_def date_isoformat_def zero_pad_def)
  then have d: "document (W\<lparr>out_dir := Some (Dir O2)\<rparr>) ''sitemap.xml''
                \<noteq> document (W\<lparr>out_dir := Some (Dir O1)\<rparr>) ''sitemap.xml''"
    by (simp add: document_def O1_def O2_def M1_def)
  from m1 m2 d show ?thesis unfolding N_def W_def by blast
qed

section \<open>Properties of the recent-items reader\<close>

lemma fold_keep_urls:
  "fold (\<lambda>row urls.
           if row = [] then urls
           else (let u = strip (hd row)
                 in if startswith u ''http://'' \<or> startswith u ''https://''
                    then urls @ [u] else urls)) rows acc
   = acc @ map (\<lambda>row. strip (hd row))
             (filter (\<lambda>row. row \<noteq> [] \<and> (startswith (strip (hd row)) ''http://''
                                          \<or> startswith (strip (hd row)) ''https://'')) rows)"
  by (induction rows arbitrary: acc) (auto simp add: Let_def)

lemma read_recent_urls_positive_limit:
  assumes "0 < limit"
  shows "read_recent_urls (Some rows) limit
           = (let urls = map (\<lambda>row. strip (hd row))
                           (filter (\<lambda>row. row \<noteq> [] \<and> (startswith (strip (hd row)) ''http://''
                                          \<or> startswith (strip (hd row)) ''https://'')) (tl rows))
              in drop (length urls - nat limit) urls)"
    and "int (length (read_recent_urls (Some rows) limit)) \<le> limit"
  using assms
  by (auto simp add: read_recent_urls_def fold_keep_urls slice_from_def Let_def nat_diff_distrib')

lemma read_recent_urls_missing: "read_recent_urls None limit = []"
  by (simp add: read_recent_urls_def)

text \<open>
  Claim C3.  The claim holds for a limit of at least 1, by the lemma above, and for a
  missing log.  With the limit 0 the reader tests \<^verbatim>\<open>len(urls) > 0\<close> and then takes
  \<^verbatim>\<open>urls[-0:]\<close>, which is the whole list: a log with two URLs gives two entries, more
  than the limit.
\<close>

theorem limit_zero_keeps_every_url:
  "read_recent_urls (Some [[''url''], [''https://x/a''], [''https://x/b'']]) 0
     = [''https://x/a'', ''https://x/b'']
   \<and> \<not> int (length (read_recent_urls (Some [[''url''], [''https://x/a''], [''https://x/b'']]) 0)) \<le> 0"
  by (simp add: read_recent_urls_def slice_from_def strip_def is_space_def startswith_def)

section \<open>Usage errors\<close>

text \<open>
  Claim C9.  With fewer than three elements in \<^verbatim>\<open>sys.argv\<close>, or nothing at the path
  given for the output directory, or a normalised base URL that does not start with
  \<^verbatim>\<open>http\<close>, the run ends in \<^verbatim>\<open>SystemExit\<close> with the message of the first of these
  that applies (for a missing directory the message ends in its resolved path), the exit
  status is 1, and the world is the one the run started from.
\<close>

theorem usage_error_exits_before_writing:
  "length argv < 3 \<or> out_dir w = None \<or> \<not> startswith (norm_base_url (argv ! 2)) ''http'' \<Longrightarrow>
     main argv now_utc w
       = (Some (SystemExit
                 (if length argv < 3 then usage
                  else if out_dir w = None then ''OUT_DIR not found: '' @ resolve w (argv ! 1)
                  else ''BASE_URL must start with http(s)'')), w)
     \<and> exit_status (fst (main argv now_utc w)) = 1"
  by (auto simp add: main_def Let_def split: option.splits)

theorem usage_error_exits_before_writing_witness:
  "main [''netlify_fix.py'', ''site'']
      \<lparr>dt_year = 2026, dt_month = 11, dt_day = 4, dt_hour = 14, dt_minute = 23, dt_second = 5\<rparr>
      \<lparr>out_dir = Some (Dir [(''index.html'', File ''home'')]), daily_csv = None,
       enriched_json = Missing, docs_dir = None,
        resolve = (\<lambda>p. ''/srv/'' @ p)\<rparr>
     = (Some (SystemExit usage),
        \<lparr>out_dir = Some (Dir [(''index.html'', File ''home'')]), daily_csv = None,
         enriched_json = Missing, docs_dir = None,
        resolve = (\<lambda>p. ''/srv/'' @ p)\<rparr>)
   \<and> exit_status (fst (main [''netlify_fix.py'', ''site'']
      \<lparr>dt_year = 2026, dt_month = 11, dt_day = 4, dt_hour = 14, dt_minute = 23, dt_second = 5\<rparr>
      \<lparr>out_dir = Some (Dir [(''index.html'', File ''home'')]), daily_csv = None,
       enriched_json = Missing, docs_dir = None,
        resolve = (\<lambda>p. ''/srv/'' @ p)\<rparr>)) = 1
   \<and> fst (main [''netlify_fix.py'', ''nowhere'', ''https://x'']
      \<lparr>dt_year = 2026, dt_month = 11, dt_day = 4, dt_hour = 14, dt_minute = 23, dt_second = 5\<rparr>
      \<lparr>out_dir = None, daily_csv = None, enriched_json = Missing, docs_dir = None,
        resolve = (\<lambda>p. ''/srv/'' @ p)\<rparr>)
     = Some (SystemExit ''OUT_DIR not found: /srv/nowhere'')
   \<and> main [''netlify_fix.py'', ''site'', ''ftp://x/'']
      \<lparr>dt_year = 2026, dt_month = 11, dt_day = 4, dt_hour = 14, dt_minute = 23, dt_second = 5\<rparr>
      \<lparr>out_dir = Some (Dir [(''index.html'', File ''home'')]), daily_csv = None,
       enriched_json = Missing, docs_dir = None,
        resolve = (\<lambda>p. ''/srv/'' @ p)\<rparr>
     = (Some (SystemExit ''BASE_URL must start with http(s)''),
        \<lparr>out_dir = Some (Dir [(''index.html'', File ''home'')]), daily_csv = None,
         enriched_json = Missing, docs_dir = None,
        resolve = (\<lambda>p. ''/srv/'' @ p)\<rparr>)"
proof -
  have a: "length [''netlify_fix.py'', ''site''] < 3 \<or> out_dir \<lparr>out_dir = Some (Dir [(''index.html'', File ''home'')]), daily_csv = None,
       enriched_json = Missing, docs_dir = None,
        resolve = (\<lambda>p. ''/srv/'' @ p)\<rparr> = None \<or> \<not> startswith (norm_base_url ([''netlify_fix.py'', ''site''] ! 2)) ''http''"
    by simp
  have b: "length [''netlify_fix.py'', ''nowhere'', ''https://x''] < 3
      \<or> out_dir \<lparr>out_dir = None, daily_csv = None, enriched_json = Missing, docs_dir = None,
        resolve = (\<lambda>p. ''/srv/'' @ p)\<rparr> = None
      \<or> \<not> startswith (norm_base_url ([''netlify_fix.py'', ''nowhere'', ''https://x''] ! 2)) ''http''"
    by simp
  have n: "norm_base_url ''ftp://x/'' = ''ftp://x''"
    by (simp add: norm_base_url_def strip_def rstrip_slash_def is_space_def)
  have c: "length [''netlify_fix.py'', ''site'', ''ftp://x/''] < 3
      \<or> out_dir \<lparr>out_dir = Some (Dir [(''index.html'', File ''home'')]), daily_csv = None,
       enriched_json = Missing, docs_dir = None,
        resolve = (\<lambda>p. ''/srv/'' @ p)\<rparr> = None
      \<or> \<not> startswith (norm_base_url ([''netlify_fix.py'', ''site'', ''ftp://x/''] ! 2)) ''http''"
    by (simp add: n startswith_def)
  show ?thesis
    using usage_error_exits_before_writing [OF a] usage_error_exits_before_writing [OF b]
      usage_error_exits_before_writing [OF c]
    by simp
qed

section \<open>Properties of the feed renderer\<close>

lemma meta_is_record:
  "dict_get_or_empty (dict_get_or_empty (load_enriched ej) ''items'') u = JDict m \<Longrightarrow>
     m = enrichment_record ej u"
  by (auto simp add: dict_get_or_empty_def enrichment_record_def
        split: enriched_file.splits json.splits option.splits)

lemma title_of_record:
  "json_strip (py_or (dict_get m ''title'') (JStr [])) = Inr t \<Longrightarrow>
     (if t = [] then u else t)
       = (case (case map_of m ''title'' of
                  Some (JStr s) \<Rightarrow> (if strip s = [] then None else Some (strip s))
                | _ \<Rightarrow> None) of Some t \<Rightarrow> t | None \<Rightarrow> u)"
  by (auto simp add: py_or_def dict_get_def strip_def split: option.splits json.splits if_splits)

lemma rss_item_fields:
  assumes "rss_item (dict_get_or_empty (load_enriched ej) ''items'') pub u = Inr item"
  shows "el_tag item = ''item''"
    and "child_text ''link'' item = Some u"
    and "child_text ''title'' item
           = Some (case enrichment_title ej u of Some t \<Rightarrow> t | None \<Rightarrow> u)"
    and "\<not> available ej u ''title'' \<Longrightarrow> child_text ''title'' item = Some u"
    and "\<not> available ej u ''summary'' \<Longrightarrow> \<not> available ej u ''description'' \<Longrightarrow>
           child_text ''description'' item = Some u"
proof -
  from assms obtain m t d where
    m: "dict_get_or_empty (dict_get_or_empty (load_enriched ej) ''items'') u = JDict m"
    and t: "json_strip (py_or (dict_get m ''title'') (JStr [])) = Inr t"
    and d: "json_strip (py_or (py_or (dict_get m ''summary'') (dict_get m ''description''))
                          (JStr [])) = Inr d"
    and item: "item = Element ''item'' [] None
                 [Element ''title'' [] (Some (if t = [] then u else t)) [],
                  Element ''link'' [] (Some u) [],
                  Element ''guid'' [] (Some u) [],
                  Element ''description'' [] (Some (if d = [] then u else d)) [],
                  Element ''pubDate'' [] (Some pub) []]"
    by (auto simp add: rss_item_def split: json.splits sum.splits)
  have rec: "m = enrichment_record ej u" using m by (rule meta_is_record)
  show "el_tag item = ''item''" by (simp add: item)
  show "child_text ''link'' item = Some u" by (simp add: item child_text_def)
  show "child_text ''title'' item
          = Some (case enrichment_title ej u of Some t \<Rightarrow> t | None \<Rightarrow> u)"
    using title_of_record[OF t, of u]
    by (simp add: item child_text_def enrichment_title_def rec)
  show "child_text ''title'' item = Some u" if "\<not> available ej u ''title''"
  proof -
    from that have "\<not> truthy (dict_get m ''title'')"
      by (simp add: available_def rec dict_get_def split: option.splits)
    with t have "t = []" by (simp add: py_or_def strip_def)
    then show ?thesis by (simp add: item child_text_def)
  qed
  show "child_text ''description'' item = Some u"
    if "\<not> available ej u ''summary''" and "\<not> available ej u ''description''"
  proof -
    from that have "\<not> truthy (dict_get m ''summary'')" "\<not> truthy (dict_get m ''description'')"
      by (simp_all add: available_def rec dict_get_def split: option.splits)
    with d have "d = []" by (simp add: py_or_def strip_def)
    then show ?thesis by (simp add: item child_text_def)
  qed
qed

lemma rss_items_nth:
  "rss_items e pub us = Inr items \<Longrightarrow>
     length items = length us \<and> (\<forall>i < length us. rss_item e pub (us ! i) = Inr (items ! i))"
proof (induction us arbitrary: items)
  case Nil
  then show ?case by simp
next
  case (Cons u us)
  from Cons.prems obtain item rest where
    a: "rss_item e pub u = Inr item" and b: "rss_items e pub us = Inr rest"
    and c: "items = item # rest"
    by (auto split: sum.splits)
  from Cons.IH[OF b] a c show ?case by (auto simp add: nth_Cons split: nat.splits)
qed

lemma feed_items_channel:
  "(\<And>i. i \<in> set items \<Longrightarrow> el_tag i = ''item'') \<Longrightarrow>
     feed_items (rss_channel base_url d items) = items"
  by (simp add: feed_items_def rss_channel_def filter_id_conv)

lemma render_rss_items:
  assumes "render_rss csv ej base_url now_utc = Inr rss"
  shows "length (feed_items rss) = length (read_recent_urls csv 50)"
    and "\<And>i. i < length (read_recent_urls csv 50) \<Longrightarrow>
           rss_item (dict_get_or_empty (load_enriched ej) ''items'') (format_datetime now_utc)
                    (rev (read_recent_urls csv 50) ! i) = Inr (feed_items rss ! i)"
proof -
  from assms obtain items where
    items: "rss_items (dict_get_or_empty (load_enriched ej) ''items'') (format_datetime now_utc)
              (rev (read_recent_urls csv 50)) = Inr items"
    and rss: "rss = rss_channel base_url (format_datetime now_utc) items"
    by (auto simp add: render_rss_def Let_def split: sum.splits)
  from rss_items_nth[OF items] have len: "length items = length (read_recent_urls csv 50)"
    and nth: "\<And>i. i < length (read_recent_urls csv 50) \<Longrightarrow>
           rss_item (dict_get_or_empty (load_enriched ej) ''items'') (format_datetime now_utc)
                    (rev (read_recent_urls csv 50) ! i) = Inr (items ! i)"
    by simp_all
  have "\<And>i. i \<in> set items \<Longrightarrow> el_tag i = ''item''"
  proof -
    fix i assume "i \<in> set items"
    then obtain k where "k < length items" "i = items ! k" by (auto simp add: in_set_conv_nth)
    with len nth[of k] show "el_tag i = ''item''" using rss_item_fields(1) by simp
  qed
  then have fi: "feed_items rss = items" unfolding rss by (rule feed_items_channel)
  show "length (feed_items rss) = length (read_recent_urls csv 50)" using fi len by simp
  show "\<And>i. i < length (read_recent_urls csv 50) \<Longrightarrow>
           rss_item (dict_get_or_empty (load_enriched ej) ''items'') (format_datetime now_utc)
                    (rev (read_recent_urls csv 50) ! i) = Inr (feed_items rss ! i)"
    using fi nth by simp
qed

text \<open>
  Claim C4.  When the feed renders, its items are the logged URLs the reader returns, in
  reverse order, the last logged first; the title of an item is the title of the URL's
  enrichment record when it has one (a string with more than white space in it, taken
  without the surrounding white space) and the URL otherwise.  The witness is the
  specification's example.
\<close>

theorem feed_items_newest_first:
  assumes "render_rss csv ej base_url now_utc = Inr rss"
  shows "map (child_text ''link'') (feed_items rss) = map Some (rev (read_recent_urls csv 50))
       \<and> map (child_text ''title'') (feed_items rss)
           = map (\<lambda>u. Some (case enrichment_title ej u of Some t \<Rightarrow> t | None \<Rightarrow> u))
                 (rev (read_recent_urls csv 50))"
proof -
  note len = render_rss_items(1)[OF assms]
  note nth = render_rss_items(2)[OF assms]
  have "map (child_text ''link'') (feed_items rss) = map Some (rev (read_recent_urls csv 50))"
  proof (rule nth_equalityI)
    show "length (map (child_text ''link'') (feed_items rss))
            = length (map Some (rev (read_recent_urls csv 50)))"
      using len by simp
    fix i assume "i < length (map (child_text ''link'') (feed_items rss))"
    with len have i: "i < length (read_recent_urls csv 50)" by simp
    from rss_item_fields(2)[OF nth[OF i]] i len
    show "map (child_text ''link'') (feed_items rss) ! i
            = map Some (rev (read_recent_urls csv 50)) ! i"
      by simp
  qed
  moreover have "map (child_text ''title'') (feed_items rss)
           = map (\<lambda>u. Some (case enrichment_title ej u of Some t \<Rightarrow> t | None \<Rightarrow> u))
                 (rev (read_recent_urls csv 50))"
  proof (rule nth_equalityI)
    show "length (map (child_text ''title'') (feed_items rss))
            = length (map (\<lambda>u. Some (case enrichment_title ej u of Some t \<Rightarrow> t | None \<Rightarrow> u))
                      (rev (read_recent_urls csv 50)))"
      using len by simp
    fix i assume "i < length (map (child_text ''title'') (feed_items rss))"
    with len have i: "i < length (read_recent_urls csv 50)" by simp
    from rss_item_fields(3)[OF nth[OF i]] i len
    show "map (child_text ''title'') (feed_items rss) ! i
            = map (\<lambda>u. Some (case enrichment_title ej u of Some t \<Rightarrow> t | None \<Rightarrow> u))
                  (rev (read_recent_urls csv 50)) ! i"
      by simp
  qed
  ultimately show ?thesis by simp
qed

lemma example_log:
  "read_recent_urls (Some [[''url''], [''https://x/a''], [''https://x/b''], [''https://x/c'']]) 50
     = [''https://x/a'', ''https://x/b'', ''https://x/c'']"
  by (simp add: read_recent_urls_def strip_def is_space_def startswith_def)

lemma example_render:
  "\<exists>rss. render_rss (Some [[''url''], [''https://x/a''], [''https://x/b''], [''https://x/c'']])
            (Parsed (JDict [(''items'',
               JDict [(''https://x/b'', JDict [(''title'', JStr ''B title'')])])]))
            base_url now_utc = Inr rss"
  by (simp add: render_rss_def example_log rss_item_def dict_get_or_empty_def dict_get_def
        py_or_def)

theorem feed_items_newest_first_witness:
  "\<exists>rss. render_rss (Some [[''url''], [''https://x/a''], [''https://x/b''], [''https://x/c'']])
            (Parsed (JDict [(''items'',
               JDict [(''https://x/b'', JDict [(''title'', JStr ''B title'')])])]))
            ''https://x''
            \<lparr>dt_year = 2026, dt_month = 11, dt_day = 4, dt_hour = 14, dt_minute = 23,
             dt_second = 5\<rparr> = Inr rss
         \<and> map (child_text ''link'') (feed_items rss)
             = [Some ''https://x/c'', Some ''https://x/b'', Some ''https://x/a'']
         \<and> map (child_text ''title'') (feed_items rss)
             = [Some ''https://x/c'', Some ''B title'', Some ''https://x/a'']"
proof -
  from example_render obtain rss where
    r: "render_rss (Some [[''url''], [''https://x/a''], [''https://x/b''], [''https://x/c'']])
            (Parsed (JDict [(''items'',
               JDict [(''https://x/b'', JDict [(''title'', JStr ''B title'')])])]))
            ''https://x''
            \<lparr>dt_year = 2026, dt_month = 11, dt_day = 4, dt_hour = 14, dt_minute = 23,
             dt_second = 5\<rparr> = Inr rss"
    by blast
  have t: "strip ''B title'' = ''B title''"
    by (simp add: strip_def is_space_def)
  from feed_items_newest_first [OF r]
  have c: "map (child_text ''link'') (feed_items rss)
             = [Some ''https://x/c'', Some ''https://x/b'', Some ''https://x/a'']
         \<and> map (child_text ''title'') (feed_items rss)
             = [Some ''https://x/c'', Some ''B title'', Some ''https://x/a'']"
    by (simp add: example_log enrichment_title_def enrichment_record_def t)
  show ?thesis by (rule exI [of _ rss], rule conjI [OF r c])
qed

subsection \<open>Without an enrichment index\<close>

















text \<open>
  An index that parses but holds something other than an object for a logged URL is
  not covered: the renderer calls \<^verbatim>\<open>get\<close> on it and the run ends in
  \<^verbatim>\<open>AttributeError\<close>.
\<close>

lemma record_not_an_object_raises:
  "render_rss (Some [[''url''], [''https://x/a'']])
     (Parsed (JDict [(''items'', JDict [(''https://x/a'', JNull)])])) base_url now_utc
     = Inl AttributeError"
  by (simp add: render_rss_def read_recent_urls_def strip_def is_space_def startswith_def
        rss_item_def dict_get_or_empty_def)

section \<open>Properties of the override-rule emitter\<close>

lemma fold_append_when:
  "fold (\<lambda>x ls. if P x then ls @ [f x] else ls) xs acc = acc @ map f (filter P xs)"
  by (induction xs arbitrary: acc) auto

lemma fold_append_two:
  "fold (\<lambda>x ls. (let ls' = (if G x then ls @ [f x] else ls)
                  in if K x then ls' @ [f x] else ls')) xs acc
   = acc @ concat (map (\<lambda>x. (if G x then [f x] else []) @ (if K x then [f x] else [])) xs)"
  by (induction xs arbitrary: acc) (auto simp add: Let_def)

lemma endswith_last: "endswith s p \<Longrightarrow> p \<noteq> [] \<Longrightarrow> last s = last p"
proof -
  assume e: "endswith s p" and p: "p \<noteq> []"
  then have "s = take (length s - length p) s @ p"
    by (metis append_take_drop_id endswith_def)
  then have "last s = last (take (length s - length p) s @ p)" by simp
  with p show ?thesis by simp
qed

lemma lower_last: "s \<noteq> [] \<Longrightarrow> last (lower s) = lower_char (last s)"
  by (simp add: lower_def last_map)

lemma lower_table:
  "zip upper_letters lower_letters
     = [(CHR ''A'', CHR ''a''), (CHR ''B'', CHR ''b''), (CHR ''C'', CHR ''c''),
        (CHR ''D'', CHR ''d''), (CHR ''E'', CHR ''e''), (CHR ''F'', CHR ''f''),
        (CHR ''G'', CHR ''g''), (CHR ''H'', CHR ''h''), (CHR ''I'', CHR ''i''),
        (CHR ''J'', CHR ''j''), (CHR ''K'', CHR ''k''), (CHR ''L'', CHR ''l''),
        (CHR ''M'', CHR ''m''), (CHR ''N'', CHR ''n''), (CHR ''O'', CHR ''o''),
        (CHR ''P'', CHR ''p''), (CHR ''Q'', CHR ''q''), (CHR ''R'', CHR ''r''),
        (CHR ''S'', CHR ''s''), (CHR ''T'', CHR ''t''), (CHR ''U'', CHR ''u''),
        (CHR ''V'', CHR ''v''), (CHR ''W'', CHR ''w''), (CHR ''X'', CHR ''x''),
        (CHR ''Y'', CHR ''y''), (CHR ''Z'', CHR ''z''), (CHR 0xC0, CHR 0xE0),
        (CHR 0xC1, CHR 0xE1), (CHR 0xC2, CHR 0xE2), (CHR 0xC3, CHR 0xE3),
        (CHR 0xC4, CHR 0xE4), (CHR 0xC5, CHR 0xE5), (CHR 0xC6, CHR 0xE6),
        (CHR 0xC7, CHR 0xE7), (CHR 0xC8, CHR 0xE8), (CHR 0xC9, CHR 0xE9),
        (CHR 0xCA, CHR 0xEA), (CHR 0xCB, CHR 0xEB), (CHR 0xCC, CHR 0xEC),
        (CHR 0xCD, CHR 0xED), (CHR 0xCE, CHR 0xEE), (CHR 0xCF, CHR 0xEF),
        (CHR 0xD0, CHR 0xF0), (CHR 0xD1, CHR 0xF1), (CHR 0xD2, CHR 0xF2),
        (CHR 0xD3, CHR 0xF3), (CHR 0xD4, CHR 0xF4), (CHR 0xD5, CHR 0xF5),
        (CHR 0xD6, CHR 0xF6), (CHR 0xD8, CHR 0xF8), (CHR 0xD9, CHR 0xF9),
        (CHR 0xDA, CHR 0xFA), (CHR 0xDB, CHR 0xFB), (CHR 0xDC, CHR 0xFC),
        (CHR 0xDD, CHR 0xFD), (CHR 0xDE, CHR 0xFE)]"
  by (simp add: upper_letters_def lower_letters_def)

lemma lower_char_fixed:
  "lower_char CHR ''t'' = CHR ''t''" "lower_char CHR 0x0A = CHR 0x0A"
  "lower_char CHR ''l'' = CHR ''l''"
  by (simp_all add: lower_char_def lower_table)

lemma key_last:
  assumes "indexnow_key_re_match fn"
  shows "fn \<noteq> [] \<and> (lower_char (last fn) = CHR ''t'' \<or> lower_char (last fn) = CHR 0x0A)"
proof -
  from assms have d: "lower (drop 32 fn) = ''.txt'' \<or> lower (drop 32 fn) = ''.txt'' @ [CHR 0x0A]"
    by (simp add: indexnow_key_re_match_def)
  then have ne: "drop 32 fn \<noteq> []" by (auto simp add: lower_def)
  then have "32 < length fn" by simp
  then have L: "last (drop 32 fn) = last fn" by (rule last_drop)
  from ne have fn: "fn \<noteq> []" by auto
  have ll: "last (lower (drop 32 fn)) = lower_char (last fn)"
    using lower_last[OF ne] unfolding L .
  from d show ?thesis
  proof
    assume a: "lower (drop 32 fn) = ''.txt''"
    have "last (lower (drop 32 fn)) = CHR ''t''" unfolding a by simp
    then have "lower_char (last fn) = CHR ''t''" unfolding ll .
    with fn show ?thesis by simp
  next
    assume a: "lower (drop 32 fn) = ''.txt'' @ [CHR 0x0A]"
    have "last (lower (drop 32 fn)) = CHR 0x0A" unfolding a by simp
    then have "lower_char (last fn) = CHR 0x0A" unfolding ll .
    with fn show ?thesis by simp
  qed
qed

lemma google_not_key: "is_google_html fn \<Longrightarrow> \<not> indexnow_key_re_match fn"
proof
  assume g: "is_google_html fn" and k: "indexnow_key_re_match fn"
  from key_last[OF k] have ne: "fn \<noteq> []"
    and l: "lower_char (last fn) = CHR ''t'' \<or> lower_char (last fn) = CHR 0x0A"
    by simp_all
  from g have "endswith (lower fn) ''.html''" by (simp add: is_google_html_def)
  then have "last (lower fn) = CHR ''l''" using endswith_last by fastforce
  with ne have "lower_char (last fn) = CHR ''l''" by (simp add: lower_last)
  with l show False by auto
qed

lemma redirect_rule_inj: "redirect_rule a = redirect_rule b \<Longrightarrow> a = b"
proof -
  assume e: "redirect_rule a = redirect_rule b"
  then have "length (redirect_rule a) = length (redirect_rule b)" by simp
  then have "length a = length b" by (simp add: redirect_rule_def)
  with e show "a = b" by (simp add: redirect_rule_def)
qed

lemma redirect_rule_not_daily: "redirect_rule fn \<noteq> daily_rule"
proof
  assume e: "redirect_rule fn = daily_rule"
  then have "length (redirect_rule fn) = length daily_rule" by simp
  then have len: "length fn = 6" by (simp add: redirect_rule_def daily_rule_def)
  from e have "take 6 (tl (redirect_rule fn)) = take 6 (tl daily_rule)" by simp
  with len have "fn = ''d/* /d''" by (simp add: redirect_rule_def daily_rule_def)
  with e show False by (simp add: redirect_rule_def daily_rule_def)
qed

lemma redirects_lines_eq:
  "redirects_lines out
     = map redirect_rule (filter (exists out) must_files)
       @ (if exists out ''d'' then [daily_rule] else [])
       @ map redirect_rule
           (filter (\<lambda>fn. is_google_html fn \<or> indexnow_key_re_match fn) (top_level_files out))"
proof -
  have "concat (map (\<lambda>x. (if is_google_html x then [redirect_rule x] else [])
                           @ (if indexnow_key_re_match x then [redirect_rule x] else [])) xs)
          = map redirect_rule (filter (\<lambda>fn. is_google_html fn \<or> indexnow_key_re_match fn) xs)"
    for xs
    using google_not_key by (induction xs) auto
  then show ?thesis
    unfolding redirects_lines_def fold_append_two fold_append_when
    by (simp add: Let_def)
qed

lemma sorted_top_level_files: "sorted (top_level_files out)"
  by (simp add: top_level_files_def)

lemma must_files_plain:
  "fn \<in> set must_files \<Longrightarrow> \<not> is_google_html fn \<and> \<not> indexnow_key_re_match fn"
  by (auto simp add: must_files_def is_google_html_def indexnow_key_re_match_def lower_def
        lower_char_def lower_table startswith_def)

lemma rule_in_lines:
  "redirect_rule fn \<in> set (redirects_lines out) \<longleftrightarrow>
     (fn \<in> set must_files \<and> exists out fn)
     \<or> (fn \<in> set (top_level_files out) \<and> (is_google_html fn \<or> indexnow_key_re_match fn))"
  using redirect_rule_inj redirect_rule_not_daily[of fn]
  by (auto simp add: redirects_lines_eq image_iff)

text \<open>
  Claim C2.  The lines of the rewrite-rules file are the self-mapping rules of the
  must-exist names that exist in the tree, in the order of that list, then the rule of the
  daily directory when \<^verbatim>\<open>d\<close> exists, then the rules of the top-level files that are
  verification or key files, in sorted order of their names.  So for a must-exist name
  its rule is among the lines exactly when the name exists.  Unless \<^verbatim>\<open>_redirects\<close> or
  \<^verbatim>\<open>_headers\<close> is a directory, the emitter writes these lines, each followed by a
  newline, to \<^verbatim>\<open>_redirects\<close>.
\<close>

theorem rewrite_rules_for_existing_files:
  "redirects_lines out
     = map redirect_rule (filter (exists out) must_files)
       @ (if exists out ''d'' then [daily_rule] else [])
       @ map redirect_rule
           (filter (\<lambda>fn. is_google_html fn \<or> indexnow_key_re_match fn) (top_level_files out))
   \<and> sorted (filter (\<lambda>fn. is_google_html fn \<or> indexnow_key_re_match fn) (top_level_files out))
   \<and> (\<forall>fn \<in> set must_files. redirect_rule fn \<in> set (redirects_lines out) \<longleftrightarrow> exists out fn)
   \<and> (\<not> is_dir_at out ''_redirects'' \<and> \<not> is_dir_at out ''_headers'' \<longrightarrow>
        (\<exists>out'. ensure_netlify_overrides out = (None, out')
           \<and> map_of out' ''_redirects''
               = Some (File (join [CHR 0x0A] (redirects_lines out) @ [CHR 0x0A]))))"
proof -
  have a: "\<forall>fn \<in> set must_files. redirect_rule fn \<in> set (redirects_lines out) \<longleftrightarrow> exists out fn"
    using must_files_plain by (auto simp add: rule_in_lines)
  have b: "sorted (filter (\<lambda>fn. is_google_html fn \<or> indexnow_key_re_match fn)
                     (top_level_files out))"
    using sorted_top_level_files by (rule sorted_wrt_filter)
  have c: "\<not> is_dir_at out ''_redirects'' \<and> \<not> is_dir_at out ''_headers'' \<longrightarrow>
        (\<exists>out'. ensure_netlify_overrides out = (None, out')
           \<and> map_of out' ''_redirects''
               = Some (File (join [CHR 0x0A] (redirects_lines out) @ [CHR 0x0A])))"
    by (simp add: ensure_netlify_overrides_def and_then_ok write_text_ok is_dir_at_update_file
          update_conv' redirects_text_def)
  show ?thesis by (intro conjI) (rule redirects_lines_eq, rule b, rule a, rule c)
qed

theorem rewrite_rules_for_existing_files_witness:
  "redirect_rule ''robots.txt''
     \<in> set (redirects_lines [(''robots.txt'', File ''r''), (''index.html'', File ''home''),
                              (''A1B2C3D4E5F6A7B8C9D0E1F2A3B4C5D6.TXT'', File ''KEY'')])
   \<and> redirect_rule ''rss.xml''
     \<notin> set (redirects_lines [(''robots.txt'', File ''r''), (''index.html'', File ''home''),
                              (''A1B2C3D4E5F6A7B8C9D0E1F2A3B4C5D6.TXT'', File ''KEY'')])
   \<and> redirect_rule ''A1B2C3D4E5F6A7B8C9D0E1F2A3B4C5D6.TXT''
     \<in> set (redirects_lines [(''robots.txt'', File ''r''), (''index.html'', File ''home''),
                              (''A1B2C3D4E5F6A7B8C9D0E1F2A3B4C5D6.TXT'', File ''KEY'')])"
proof -
  define K where "K = ''A1B2C3D4E5F6A7B8C9D0E1F2A3B4C5D6.TXT''"
  define out where "out = [(''robots.txt'', File ''r''), (''index.html'', File ''home''),
                           (K, File ''KEY'')]"
  have m: "''robots.txt'' \<in> set must_files" "''rss.xml'' \<in> set must_files"
    by (simp_all add: must_files_def)
  have e: "exists out ''robots.txt''" "\<not> exists out ''rss.xml''"
    by (simp_all add: out_def exists_def K_def)
  have k: "indexnow_key_re_match K"
    by (simp add: K_def indexnow_key_re_match_def is_hex_def lower_def lower_char_def
          lower_table)
  have t: "K \<in> set (top_level_files out)"
    by (simp add: top_level_files_def out_def)
  note inst = rewrite_rules_for_existing_files [of out]
  from inst have eq: "redirects_lines out
     = map redirect_rule (filter (exists out) must_files)
       @ (if exists out ''d'' then [daily_rule] else [])
       @ map redirect_rule
           (filter (\<lambda>fn. is_google_html fn \<or> indexnow_key_re_match fn) (top_level_files out))"
    by (elim conjE)
  from inst
  have all: "\<forall>fn \<in> set must_files. redirect_rule fn \<in> set (redirects_lines out) \<longleftrightarrow> exists out fn"
    by (elim conjE)
  have key: "redirect_rule K \<in> set (redirects_lines out)"
    unfolding eq using k t by simp
  from bspec [OF all m(1)] bspec [OF all m(2)] e key
  have "redirect_rule ''robots.txt'' \<in> set (redirects_lines out)
      \<and> redirect_rule ''rss.xml'' \<notin> set (redirects_lines out)
      \<and> redirect_rule K \<in> set (redirects_lines out)"
    by simp
  then show ?thesis unfolding out_def K_def .
qed

lemma count_list_map_inj:
  "(\<And>a b. f a = f b \<Longrightarrow> a = b) \<Longrightarrow> count_list (map f xs) (f x) = count_list xs x"
  by (induction xs) auto

lemma count_list_filter:
  "count_list (filter P xs) x = (if P x then count_list xs x else 0)"
  by (induction xs) auto

lemma count_list_distinct: "distinct xs \<Longrightarrow> x \<in> set xs \<Longrightarrow> count_list xs x = 1"
  by (induction xs) auto

lemma key_name_matches:
  "length h = 32 \<Longrightarrow> list_all is_hex h \<Longrightarrow> lower e = ''.txt'' \<Longrightarrow>
     indexnow_key_re_match (h @ e)"
  by (simp add: indexnow_key_re_match_def)

lemma notakey_plain:
  "\<not> is_google_html ''notakey.txt''" "\<not> indexnow_key_re_match ''notakey.txt''"
  "''notakey.txt'' \<notin> set must_files"
  by (simp_all add: is_google_html_def indexnow_key_re_match_def lower_def lower_char_def
        lower_table startswith_def must_files_def)

text \<open>
  Claim C7.  In a directory with distinct names, a top-level file named by 32
  hexadecimal digits and \<^verbatim>\<open>.txt\<close>, the digits and the suffix in either case, matches the
  key pattern and its self-mapping rule occurs exactly once among the rewrite rules.  The
  name \<^verbatim>\<open>notakey.txt\<close> matches neither the key pattern nor the verification convention,
  and its rule is never among the rewrite rules.
\<close>

theorem key_file_gets_one_rule:
  assumes "distinct (map fst out)" and "map_of out (h @ e) = Some (File c)"
    and "length h = 32" and "list_all is_hex h" and "lower e = ''.txt''"
  shows "indexnow_key_re_match (h @ e)
       \<and> count_list (redirects_lines out) (redirect_rule (h @ e)) = 1
       \<and> \<not> is_google_html ''notakey.txt'' \<and> \<not> indexnow_key_re_match ''notakey.txt''
       \<and> redirect_rule ''notakey.txt'' \<notin> set (redirects_lines out)"
proof -
  define fn where "fn = h @ e"
  have k: "indexnow_key_re_match fn"
    unfolding fn_def using assms(3,4,5) by (rule key_name_matches)
  then have nm: "fn \<notin> set must_files" using must_files_plain by blast
  from assms(2) have "(fn, File c) \<in> set out" unfolding fn_def by (rule map_of_SomeD)
  then have "(fn, File c) \<in> set (filter (\<lambda>e. is_file (snd e)) out)" by simp
  then have mem: "fn \<in> set (top_level_files out)"
    unfolding top_level_files_def by (metis set_sort image_eqI fst_conv set_map)
  have dis: "distinct (top_level_files out)"
    unfolding top_level_files_def using assms(1) by (simp add: distinct_map_filter)
  have c1: "count_list (map redirect_rule (filter (exists out) must_files)) (redirect_rule fn) = 0"
    using nm by (simp add: count_list_map_inj redirect_rule_inj count_list_filter
          count_list_0_iff)
  have c2: "count_list (if exists out ''d'' then [daily_rule] else []) (redirect_rule fn) = 0"
    using redirect_rule_not_daily[of fn] by auto
  have c3: "count_list (map redirect_rule
               (filter (\<lambda>fn. is_google_html fn \<or> indexnow_key_re_match fn)
                  (top_level_files out))) (redirect_rule fn) = 1"
    using k by (simp add: count_list_map_inj redirect_rule_inj count_list_filter
          count_list_distinct[OF dis mem])
  have one: "count_list (redirects_lines out) (redirect_rule fn) = 1"
    unfolding redirects_lines_eq count_list_append c1 c2 c3 by simp
  have no: "redirect_rule ''notakey.txt'' \<notin> set (redirects_lines out)"
    using notakey_plain by (simp add: rule_in_lines)
  show ?thesis
    using k one no notakey_plain(1,2) unfolding fn_def by simp
qed

theorem key_file_gets_one_rule_witness:
  "count_list
     (redirects_lines [(''a1b2c3d4e5f6a7b8c9d0e1f2a3b4c5d6.txt'', File ''key''),
                       (''A1B2C3D4E5F6A7B8C9D0E1F2A3B4C5D6.TXT'', File ''KEY''),
                       (''notakey.txt'', File ''no'')])
     (redirect_rule ''a1b2c3d4e5f6a7b8c9d0e1f2a3b4c5d6.txt'') = 1
   \<and> count_list
     (redirects_lines [(''a1b2c3d4e5f6a7b8c9d0e1f2a3b4c5d6.txt'', File ''key''),
                       (''A1B2C3D4E5F6A7B8C9D0E1F2A3B4C5D6.TXT'', File ''KEY''),
                       (''notakey.txt'', File ''no'')])
     (redirect_rule ''A1B2C3D4E5F6A7B8C9D0E1F2A3B4C5D6.TXT'') = 1
   \<and> redirect_rule ''notakey.txt''
       \<notin> set (redirects_lines [(''a1b2c3d4e5f6a7b8c9d0e1f2a3b4c5d6.txt'', File ''key''),
                                (''A1B2C3D4E5F6A7B8C9D0E1F2A3B4C5D6.TXT'', File ''KEY''),
                                (''notakey.txt'', File ''no'')])"
proof -
  define out where "out = [(''a1b2c3d4e5f6a7b8c9d0e1f2a3b4c5d6.txt'', File ''key''),
                           (''A1B2C3D4E5F6A7B8C9D0E1F2A3B4C5D6.TXT'', File ''KEY''),
                           (''notakey.txt'', File ''no'')]"
  have h1: "distinct (map fst out)" by (simp add: out_def)
  have h2: "map_of out (''a1b2c3d4e5f6a7b8c9d0e1f2a3b4c5d6'' @ ''.txt'') = Some (File ''key'')"
    by (simp add: out_def)
  have h3: "length ''a1b2c3d4e5f6a7b8c9d0e1f2a3b4c5d6'' = 32" by simp
  have h4: "list_all is_hex ''a1b2c3d4e5f6a7b8c9d0e1f2a3b4c5d6''" by (simp add: is_hex_def)
  have h5: "lower ''.txt'' = ''.txt''"
    by (simp add: lower_def lower_char_def lower_table)
  have u2: "map_of out (''A1B2C3D4E5F6A7B8C9D0E1F2A3B4C5D6'' @ ''.TXT'') = Some (File ''KEY'')"
    by (simp add: out_def)
  have u3: "length ''A1B2C3D4E5F6A7B8C9D0E1F2A3B4C5D6'' = 32" by simp
  have u4: "list_all is_hex ''A1B2C3D4E5F6A7B8C9D0E1F2A3B4C5D6''" by (simp add: is_hex_def)
  have u5: "lower ''.TXT'' = ''.txt''"
    by (simp add: lower_def lower_char_def lower_table)
  from key_file_gets_one_rule [OF h1 h2 h3 h4 h5]
  have a: "count_list (redirects_lines out)
          (redirect_rule (''a1b2c3d4e5f6a7b8c9d0e1f2a3b4c5d6'' @ ''.txt'')) = 1"
    and b: "redirect_rule ''notakey.txt'' \<notin> set (redirects_lines out)"
    by simp_all
  from key_file_gets_one_rule [OF h1 u2 u3 u4 u5]
  have c: "count_list (redirects_lines out)
          (redirect_rule (''A1B2C3D4E5F6A7B8C9D0E1F2A3B4C5D6'' @ ''.TXT'')) = 1"
    by simp
  from a b c show ?thesis unfolding out_def by simp
qed

section \<open>Verification pages in the sitemap\<close>

lemma copied_token_exists:
  assumes "copy_root_tokens (Some docs) out = (None, c)"
    and "p \<in> set docs" and "glob_google_html (fst p)"
  shows "exists c (fst p)"
proof -
  from assms(1) obtain g where
    g: "for_each copy_if_missing (filter (\<lambda>p. glob_google_html (fst p)) docs) out = (None, g)"
    and c: "for_each copy_if_key (filter (\<lambda>p. glob_txt (fst p)) docs) g = (None, c)"
    by (auto simp add: copy_root_tokens_ok)
  from assms(2,3) have p: "p \<in> set (filter (\<lambda>p. glob_google_html (fst p)) docs)" by simp
  have "exists g (fst p)"
    using for_each_establishes[OF copy_if_missing_mono copy_if_missing_est g p] by simp
  then show ?thesis using for_each_mono[OF copy_if_key_mono c] by blast
qed

lemma google_name_html:
  assumes "glob_google_html n"
  shows "fnmatch_html n" and "n \<noteq> ''index.html''"
proof -
  from assms show "fnmatch_html n" by (simp add: glob_google_html_def fnmatch_html_def)
  from assms have "startswith n ''google''" by (simp add: glob_google_html_def)
  then show "n \<noteq> ''index.html''" by (auto simp add: startswith_def)
qed

lemma copied_token_in_sitemap:
  assumes run: "pipeline w base_url now_utc out = (None, out5)"
    and docs: "docs_dir w = Some docs"
    and p: "(n, nd) \<in> set docs" and g: "glob_google_html n"
  shows "\<exists>U. map_of out5 ''sitemap.xml''
               = Some (File (xml_write (sitemap_urlset U (date_isoformat now_utc))))
           \<and> base_url @ ''/'' @ n \<in> set U"
proof -
  from run obtain c rss s where
    copy: "copy_root_tokens (docs_dir w) out = (None, c)"
    and nd: "\<not> is_dir_at c ''robots.txt''" "\<not> is_dir_at c ''rss.xml''"
    and s: "s = AList.update ''rss.xml'' (File (xml_write rss))
                  (AList.update ''robots.txt'' (File (robots_text base_url)) c)"
    and out5: "out5 = AList.update ''_headers'' (File headers_text)
                 (AList.update ''_redirects''
                    (File (redirects_text (AList.update ''sitemap.xml''
                       (File (xml_write (sitemap_urlset (collect_internal_pages s base_url)
                                                        (date_isoformat now_utc)))) s)))
                    (AList.update ''sitemap.xml''
                       (File (xml_write (sitemap_urlset (collect_internal_pages s base_url)
                                                        (date_isoformat now_utc)))) s))"
    unfolding pipeline_ok by blast
  from copied_token_exists[OF copy[unfolded docs], of "(n, nd)"] p g
  have "exists c n" by simp
  then obtain x where "map_of c n = Some x" by (auto simp add: exists_def)
  then have "(n, x) \<in> set c" by (rule map_of_SomeD)
  then have "n \<in> set (rglob_html c)"
    using google_name_html(1)[OF g] by (rule rglob_entry_name)
  moreover have "set (rglob_html s) = set (rglob_html c)"
    using nd by (simp add: s rglob_update_plain is_dir_at_update_file not_html_names)
  ultimately have "base_url @ ''/'' @ n \<in> set (collect_internal_pages s base_url)"
    using google_name_html(2)[OF g] by (simp add: set_collect)
  moreover have "map_of out5 ''sitemap.xml''
      = Some (File (xml_write (sitemap_urlset (collect_internal_pages s base_url)
                                               (date_isoformat now_utc))))"
    by (simp add: out5 update_conv')
  ultimately show ?thesis by blast
qed

text \<open>
  Claim C10.  A file that a relative path leads to in the output tree, at any depth, and
  whose name ends in \<^verbatim>\<open>.html\<close> has its URL in the collector's result and among the
  \<^verbatim>\<open>loc\<close> entries of the sitemap built from it: the base URL, a slash and the path, and
  for the root \<^verbatim>\<open>index.html\<close> the base URL and a slash.  Nothing excludes a name that
  starts with \<^verbatim>\<open>google\<close>: after a run that succeeds, the sitemap it wrote lists every
  entry of \<^verbatim>\<open>docs/\<close> that matches \<^verbatim>\<open>google*.html\<close>, copied to the root or there before.
\<close>

theorem every_html_file_in_sitemap:
  "(lookup_path out ps = Some (File c) \<and> fnmatch_html (last ps) \<longrightarrow>
      (if ps = [''index.html''] then base_url @ ''/'' else base_url @ ''/'' @ join ''/'' ps)
         \<in> set (collect_internal_pages out base_url)
      \<and> Some (if ps = [''index.html''] then base_url @ ''/''
               else base_url @ ''/'' @ join ''/'' ps)
         \<in> set (map (child_text ''loc'')
                   (el_children (sitemap_urlset (collect_internal_pages out base_url) lastmod))))
   \<and> (pipeline w base_url now_utc tree = (None, tree') \<and> docs_dir w = Some docs
        \<and> (n, nd) \<in> set docs \<and> glob_google_html n \<longrightarrow>
      (\<exists>U. map_of tree' ''sitemap.xml''
               = Some (File (xml_write (sitemap_urlset U (date_isoformat now_utc))))
           \<and> base_url @ ''/'' @ n \<in> set U))"
proof (intro conjI impI)
  assume a: "lookup_path out ps = Some (File c) \<and> fnmatch_html (last ps)"
  then have m: "(if ps = [''index.html''] then base_url @ ''/''
                  else base_url @ ''/'' @ join ''/'' ps)
                   \<in> set (collect_internal_pages out base_url)"
    using html_path_listed [of out ps "File c" base_url] by simp
  then show "(if ps = [''index.html''] then base_url @ ''/'' else base_url @ ''/'' @ join ''/'' ps)
         \<in> set (collect_internal_pages out base_url)" .
  from m show "Some (if ps = [''index.html''] then base_url @ ''/''
               else base_url @ ''/'' @ join ''/'' ps)
         \<in> set (map (child_text ''loc'')
                   (el_children (sitemap_urlset (collect_internal_pages out base_url) lastmod)))"
    by (simp only: urlset_locs set_map image_iff) blast
next
  assume "pipeline w base_url now_utc tree = (None, tree') \<and> docs_dir w = Some docs
        \<and> (n, nd) \<in> set docs \<and> glob_google_html n"
  then show "\<exists>U. map_of tree' ''sitemap.xml''
               = Some (File (xml_write (sitemap_urlset U (date_isoformat now_utc))))
           \<and> base_url @ ''/'' @ n \<in> set U"
    using copied_token_in_sitemap [of w base_url now_utc tree "tree'" docs n nd] by simp
qed

theorem every_html_file_in_sitemap_witness:
  "''https://x/google1a2b.html''
     \<in> set (collect_internal_pages
              [(''index.html'', File ''home''), (''google1a2b.html'', File ''token'')]
              ''https://x'')
   \<and> (\<exists>out5 U.
        pipeline \<lparr>out_dir = Some (Dir [(''index.html'', File ''home'')]), daily_csv = None,
                  enriched_json = Missing,
                  docs_dir = Some [(''google1a2b.html'', File ''token'')],
        resolve = (\<lambda>p. ''/srv/'' @ p)\<rparr>
          ''https://x''
          \<lparr>dt_year = 2026, dt_month = 11, dt_day = 4, dt_hour = 14, dt_minute = 23,
           dt_second = 5\<rparr>
          [(''index.html'', File ''home'')] = (None, out5)
      \<and> map_of out5 ''sitemap.xml''
          = Some (File (xml_write (sitemap_urlset U
               (date_isoformat \<lparr>dt_year = 2026, dt_month = 11, dt_day = 4, dt_hour = 14,
                                 dt_minute = 23, dt_second = 5\<rparr>))))
      \<and> ''https://x/google1a2b.html'' \<in> set U)"
proof -
  define N where "N = \<lparr>dt_year = 2026, dt_month = 11, dt_day = 4, dt_hour = 14,
                         dt_minute = 23, dt_second = 5\<rparr>"
  define D where "D = [(''google1a2b.html'', File ''token'')]"
  define W where "W = \<lparr>out_dir = Some (Dir [(''index.html'', File ''home'')]),
                         daily_csv = None, enriched_json = Missing, docs_dir = Some D,
        resolve = (\<lambda>p. ''/srv/'' @ p)\<rparr>"
  define T where "T = [(''index.html'', File ''home''), (''google1a2b.html'', File ''token'')]"
  have g: "glob_google_html ''google1a2b.html''"
    by (simp add: glob_google_html_def startswith_def endswith_def)
  have h1: "lookup_path T [''google1a2b.html''] = Some (File ''token'')
            \<and> fnmatch_html (last [''google1a2b.html''])"
    by (simp add: T_def fnmatch_html_def endswith_def)
  have copy: "copy_root_tokens (docs_dir W) [(''index.html'', File ''home'')] = (None, T)"
    by (simp add: W_def D_def T_def copy_root_tokens_def and_then_def copy_if_missing_def
          copy_if_key_def g glob_txt_def endswith_def exists_def)
  have "\<exists>out5. pipeline W ''https://x'' N [(''index.html'', File ''home'')] = (None, out5)"
    using copy by (rule pipeline_succeeds) (simp_all add: W_def render_empty is_dir_at_def T_def)
  then obtain out5 where
    run: "pipeline W ''https://x'' N [(''index.html'', File ''home'')] = (None, out5)" by blast
  have h2: "pipeline W ''https://x'' N [(''index.html'', File ''home'')] = (None, out5)
            \<and> docs_dir W = Some D \<and> (''google1a2b.html'', File ''token'') \<in> set D
            \<and> glob_google_html ''google1a2b.html''"
    using run g by (simp add: W_def D_def)
  note inst = every_html_file_in_sitemap [where out = T and ps = "[''google1a2b.html'']"
      and c = "''token''" and base_url = "''https://x''" and w = W and now_utc = N
      and tree = "[(''index.html'', File ''home'')]" and tree' = out5 and docs = D and n = "''google1a2b.html''" and nd = "File ''token''"]
  from inst h1 have a: "''https://x/google1a2b.html'' \<in> set (collect_internal_pages T ''https://x'')"
    by simp
  from inst h2 obtain U where
    b: "map_of out5 ''sitemap.xml'' = Some (File (xml_write (sitemap_urlset U (date_isoformat N))))"
    and c: "''https://x/google1a2b.html'' \<in> set U"
    by auto
  have "''https://x/google1a2b.html'' \<in> set (collect_internal_pages T ''https://x'')
        \<and> (\<exists>out5 U. pipeline W ''https://x'' N [(''index.html'', File ''home'')] = (None, out5)
              \<and> map_of out5 ''sitemap.xml''
                  = Some (File (xml_write (sitemap_urlset U (date_isoformat N))))
              \<and> ''https://x/google1a2b.html'' \<in> set U)"
    using a run b c by blast
  then show ?thesis unfolding N_def D_def W_def T_def .
qed

end
